theory Spec2Isabelle
  imports Complex_Main
begin

section \<open>LsstCameraUtils: detector lookup on the LSST focal plane\<close>

text \<open>
  A shallow embedding of \<^verbatim>\<open>python/lsst/sims/coordUtils/LsstCameraUtils.py\<close>.

  Conventions of the model.
  \<^item> Python floats and numpy float arrays are real numbers and lists of reals: rounding,
    infinities and NaN are not modelled, except that a division by a zero radius is
    written out where the source divides (numpy gives \<open>inf\<close> or \<open>nan\<close> there).
  \<^item> Exceptions are values of \<open>py_error\<close>; a function that can raise returns
    \<open>py_error + 'a\<close>.
  \<^item> The module globals \<^verbatim>\<open>_lsst_camera\<close> and \<^verbatim>\<open>_lsst_pupil_coord_map\<close>
    are passed explicitly: the camera (with the geometry library it gives access to) as a
    record \<open>lsst_env\<close>, the footprint map as a \<open>pupil_coord_map option\<close> that every
    function using it returns updated.
  \<^item> The geometry and astrometry libraries (afw, sims-utils, the rest of coordUtils) are
    fields of \<open>lsst_env\<close>: the model fixes nothing about them beyond being functions that
    act on each point of a batch separately.
\<close>

subsection \<open>Data\<close>

type_synonym point = "real \<times> real"

datatype py_error = RuntimeError string | IndexError | KeyError | TypeError

text \<open>\<^verbatim>\<open>lsst.afw.cameraGeom\<close> detector types; the source only compares with \<^verbatim>\<open>WAVEFRONT\<close>.\<close>

datatype detector_type = SCIENCE | FOCUS | GUIDER | WAVEFRONT

text \<open>
  A detector as far as the module looks at it: \<^verbatim>\<open>getName()\<close> and \<^verbatim>\<open>getType()\<close>.
  Its bounding box and transform map are reached through \<open>lsst_env\<close>. The Python test
  \<^verbatim>\<open>detector in detectorList[ii]\<close> is equality of these records.
\<close>

record detector =
  det_name :: string
  det_type :: detector_type

record ObservationMetaData =
  mjd :: "real option"
  rotSkyPos :: "real option"

text \<open>An argument that may be a number, a numpy array or something else.\<close>

datatype pyarg = PyNum real | NdArray "real list" | PyOther

record lsst_env =
  camera_detectors :: "detector list"
    \<comment> \<open>the detectors in the order of \<^verbatim>\<open>for chip in _lsst_camera\<close>\<close>
  transformToNative :: "point \<Rightarrow> point"
    \<comment> \<open>\<^verbatim>\<open>_lsst_camera._transformSingleSysArray(., PUPIL, _nativeCameraSys)\<close> on one point\<close>
  transformToPixels :: "detector \<Rightarrow> point \<Rightarrow> point"
    \<comment> \<open>\<^verbatim>\<open>detector.getTransformMap().transform(., _nativeCameraSys, PIXELS)\<close> on one point\<close>
  boxContains :: "detector \<Rightarrow> point \<Rightarrow> bool"
    \<comment> \<open>\<^verbatim>\<open>afwGeom.Box2D(detector.getBBox()).contains(pt)\<close>\<close>
  getCornerPixels :: "string \<Rightarrow> point list"
    \<comment> \<open>\<^verbatim>\<open>getCornerPixels(chip_name, _lsst_camera)\<close>\<close>
  pupilCoordsFromPixelCoords :: "string \<Rightarrow> point \<Rightarrow> point"
    \<comment> \<open>\<^verbatim>\<open>pupilCoordsFromPixelCoords\<close> on one pixel position of one chip\<close>
  pupilCoordsFromRaDec :: "pyarg \<Rightarrow> pyarg \<Rightarrow> ObservationMetaData \<Rightarrow> real \<Rightarrow> pyarg \<times> pyarg"
    \<comment> \<open>\<^verbatim>\<open>_pupilCoordsFromRaDec(ra, dec, obs_metadata, epoch)\<close>\<close>

text \<open>
  \<^verbatim>\<open>_lsst_pupil_coord_map\<close>: a dict with the keys \<^verbatim>\<open>'name'\<close>, \<^verbatim>\<open>'xx'\<close>, \<^verbatim>\<open>'yy'\<close>,
  \<^verbatim>\<open>'dp'\<close>, each an array with one entry per chip.
\<close>

record pupil_coord_map =
  pm_name :: "string list"
  pm_xx :: "real list"
  pm_yy :: "real list"
  pm_dp :: "real list"

text \<open>
  An entry of \<^verbatim>\<open>outputNameList\<close> while the search runs: \<^verbatim>\<open>None\<close>, a name, or a list
  of names.
\<close>

datatype slot = SNone | SName string | SList "string list"

text \<open>
  An entry of the returned array: \<^verbatim>\<open>None\<close>, a name, or \<open>EListStr ns\<close> for the string
  \<^verbatim>\<open>str(ns)\<close> that Python makes of the list \<open>ns\<close> (lines 133-134 and 157-158). The text
  of that string is the interpreter's business; the model keeps the list it was made from.
\<close>

datatype entry = ENone | EStr string | EListStr "string list"

text \<open>
  The local variables of \<^verbatim>\<open>_findDetectorsListLSST\<close> that change in its loops. The field
  \<open>tests\<close> is not in the source: it logs, in order, every execution of lines 138-144 (the
  batched transform of the points in \<^verbatim>\<open>valid_pt_dexes\<close> to the pixel frame of one detector
  and the box test of each), as the detector and the indices of the points tested.
\<close>

record rstate =
  outputNameList :: "slot list"
  chip_has_found :: "int list"
  checked_detectors :: "string list"
  tests :: "(detector \<times> nat list) list"

text \<open>How a loop body ends: it falls through, it executes \<^verbatim>\<open>return\<close>, or it raises.\<close>

datatype flow = Running rstate | Returned rstate | Raised py_error

subsection \<open>\<^verbatim>\<open>_findDetectorsListLSST\<close>\<close>

text \<open>Lines 118-123: which points may be reported on several chips.\<close>

fun mark_multiple :: "detector list list \<Rightarrow> nat list \<Rightarrow> bool list \<Rightarrow> py_error + bool list" where
  "mark_multiple detectorList [] could_be_multiple = Inr could_be_multiple"
| "mark_multiple detectorList (ipt # rest) could_be_multiple =
     (if ipt < length detectorList then
        mark_multiple detectorList rest
          (if list_ex (\<lambda>det. det_type det = WAVEFRONT) (detectorList ! ipt)
           then could_be_multiple[ipt := True] else could_be_multiple)
      else Inl IndexError)"

text \<open>Lines 145-154: the point \<open>ix\<close> is inside the box of the detector called \<open>nm\<close>.\<close>

definition record_hit :: "bool list \<Rightarrow> string \<Rightarrow> nat \<Rightarrow> rstate \<Rightarrow> rstate" where
  "record_hit could_be_multiple nm ix s =
     (if \<not> could_be_multiple ! ix then
        s\<lparr>outputNameList := (outputNameList s)[ix := SName nm],
          chip_has_found := (chip_has_found s)[ix := 1]\<rparr>
      else
        (case outputNameList s ! ix of
           SNone \<Rightarrow> s\<lparr>outputNameList := (outputNameList s)[ix := SName nm]\<rparr>
         | SList ns \<Rightarrow> s\<lparr>outputNameList := (outputNameList s)[ix := SList (ns @ [nm])]\<rparr>
         | SName n0 \<Rightarrow> s\<lparr>outputNameList := (outputNameList s)[ix := SList [n0, nm]]\<rparr>))"

text \<open>
  Line 136: \<^verbatim>\<open>[ii for ii in unfound_pts if detector in detectorList[ii]]\<close>; indexing
  \<^verbatim>\<open>detectorList\<close> past its end raises.
\<close>

fun valid_pt_dexes :: "detector \<Rightarrow> detector list list \<Rightarrow> nat list \<Rightarrow> py_error + nat list" where
  "valid_pt_dexes detector detectorList [] = Inr []"
| "valid_pt_dexes detector detectorList (ii # rest) =
     (if ii < length detectorList then
        (case valid_pt_dexes detector detectorList rest of
           Inl e \<Rightarrow> Inl e
         | Inr r \<Rightarrow> Inr (if detector \<in> set (detectorList ! ii) then ii # r else r))
      else Inl IndexError)"

text \<open>
  Lines 129-154: the body of the detector loop for a detector whose name is not yet in
  \<^verbatim>\<open>checked_detectors\<close>. The indices \<^verbatim>\<open>unfound_pts\<close> are below the length of
  \<^verbatim>\<open>chip_has_found\<close>, which is the length of \<^verbatim>\<open>nativePointList\<close>, so
  \<^verbatim>\<open>nativePointList[ii]\<close> cannot fail.
\<close>

definition visit_detector ::
  "lsst_env \<Rightarrow> detector list list \<Rightarrow> bool list \<Rightarrow> point list \<Rightarrow> detector \<Rightarrow> rstate \<Rightarrow> flow" where
  "visit_detector env detectorList could_be_multiple nativePointList detector s =
     (let s1 = s\<lparr>checked_detectors := checked_detectors s @ [det_name detector]\<rparr>;
          unfound_pts = filter (\<lambda>i. chip_has_found s1 ! i < 0) [0..<length (chip_has_found s1)]
      in if length unfound_pts = 0 then Returned s1
         else
           (case valid_pt_dexes detector detectorList unfound_pts of
              Inl e \<Rightarrow> Raised e
            | Inr dexes \<Rightarrow>
                if length dexes > 0 then
                  (let valid_pt_list = map (\<lambda>ii. nativePointList ! ii) dexes;
                       detectorPointList = map (transformToPixels env detector) valid_pt_list
                   in Running
                        (fold (\<lambda>(ix, pt) st.
                                 if boxContains env detector pt
                                 then record_hit could_be_multiple (det_name detector) ix st
                                 else st)
                              (zip dexes detectorPointList)
                              (s1\<lparr>tests := tests s1 @ [(detector, dexes)]\<rparr>)))
                else Running s1))"

text \<open>Lines 127-128: the loop over the shortlist of one point.\<close>

fun detector_loop ::
  "lsst_env \<Rightarrow> detector list list \<Rightarrow> bool list \<Rightarrow> point list \<Rightarrow> detector list \<Rightarrow> rstate \<Rightarrow> flow" where
  "detector_loop env detectorList cbm native [] s = Running s"
| "detector_loop env detectorList cbm native (detector # rest) s =
     (if det_name detector \<notin> set (checked_detectors s) then
        (case visit_detector env detectorList cbm native detector s of
           Running s' \<Rightarrow> detector_loop env detectorList cbm native rest s'
         | Returned s' \<Rightarrow> Returned s'
         | Raised e \<Rightarrow> Raised e)
      else detector_loop env detectorList cbm native rest s)"

text \<open>Lines 125-126: the loop over the points, given as the list of their indices.\<close>

fun point_loop ::
  "lsst_env \<Rightarrow> detector list list \<Rightarrow> bool list \<Rightarrow> point list \<Rightarrow> nat list \<Rightarrow> rstate \<Rightarrow> flow" where
  "point_loop env detectorList cbm native [] s = Running s"
| "point_loop env detectorList cbm native (ipt # rest) s =
     (if outputNameList s ! ipt = SNone then
        (if ipt < length detectorList then
           (case detector_loop env detectorList cbm native (detectorList ! ipt) s of
              Running s' \<Rightarrow> point_loop env detectorList cbm native rest s'
            | Returned s' \<Rightarrow> Returned s'
            | Raised e \<Rightarrow> Raised e)
         else Raised IndexError)
      else point_loop env detectorList cbm native rest s)"

text \<open>Lines 132-134 and 156-158: every list becomes its string.\<close>

definition str_lists :: "slot list \<Rightarrow> entry list" where
  "str_lists names =
     map (\<lambda>name. case name of SNone \<Rightarrow> ENone | SName n \<Rightarrow> EStr n | SList ns \<Rightarrow> EListStr ns) names"

text \<open>
  The whole function, up to the state in which it leaves its loops (by the \<^verbatim>\<open>return\<close> of
  line 135 or by the end of the outer loop); both exits convert and return
  \<^verbatim>\<open>outputNameList\<close> in the same way.
\<close>

definition findDetectors_exec ::
  "lsst_env \<Rightarrow> point list \<Rightarrow> detector list list \<Rightarrow> bool \<Rightarrow> py_error + rstate" where
  "findDetectors_exec env cameraPointList detectorList allow_multiple_chips =
     (let nativePointList = map (transformToNative env) cameraPointList;
          n = length cameraPointList;
          s0 = \<lparr>outputNameList = replicate n SNone,
                chip_has_found = replicate n (- 1),
                checked_detectors = [],
                tests = []\<rparr>
      in case mark_multiple detectorList (if allow_multiple_chips then [0..<n] else [])
                (replicate n False) of
           Inl e \<Rightarrow> Inl e
         | Inr could_be_multiple \<Rightarrow>
             (case point_loop env detectorList could_be_multiple nativePointList [0..<n] s0 of
                Running s \<Rightarrow> Inr s
              | Returned s \<Rightarrow> Inr s
              | Raised e \<Rightarrow> Inl e))"

definition findDetectorsListLSST ::
  "lsst_env \<Rightarrow> point list \<Rightarrow> detector list list \<Rightarrow> bool \<Rightarrow> py_error + entry list" where
  "findDetectorsListLSST env cameraPointList detectorList allow_multiple_chips =
     (case findDetectors_exec env cameraPointList detectorList allow_multiple_chips of
        Inl e \<Rightarrow> Inl e
      | Inr s \<Rightarrow> Inr (str_lists (outputNameList s)))"

subsection \<open>\<^verbatim>\<open>_build_lsst_pupil_coord_map\<close>\<close>

text \<open>The first error of a list of results, or all the values.\<close>

fun collect :: "(py_error + 'a) list \<Rightarrow> py_error + 'a list" where
  "collect [] = Inr []"
| "collect (r # rs) =
     (case r of
        Inl e \<Rightarrow> Inl e
      | Inr v \<Rightarrow> (case collect rs of Inl e \<Rightarrow> Inl e | Inr vs \<Rightarrow> Inr (v # vs)))"

text \<open>
  Lines 36-43: one entry per corner of every chip, in camera order; the source keeps the
  three components in the parallel lists \<^verbatim>\<open>name_list\<close>, \<^verbatim>\<open>x_pix_list\<close>, \<^verbatim>\<open>y_pix_list\<close>.
\<close>

definition corner_table :: "lsst_env \<Rightarrow> (string \<times> point) list" where
  "corner_table env =
     concat (map (\<lambda>chip. map (\<lambda>corner. (det_name chip, corner))
                               (getCornerPixels env (det_name chip)))
                 (camera_detectors env))"

text \<open>
  Lines 57-71: the body of the loop over \<^verbatim>\<open>ix_ct\<close>. The three lists have one length, so
  \<^verbatim>\<open>name_list[ix]\<close> and \<^verbatim>\<open>x_pup_list[ix+3]\<close> raise IndexError on the same condition.
\<close>

definition footprint ::
  "string list \<Rightarrow> real list \<Rightarrow> real list \<Rightarrow> nat \<Rightarrow> py_error + (string \<times> real \<times> real \<times> real)" where
  "footprint name_list x_pup_list y_pup_list ix_ct =
     (let ix = ix_ct * 4 in
      if ix + 3 < length name_list then
        (let chip_name = name_list ! ix;
             xx = 0.25 * (x_pup_list ! ix + x_pup_list ! (ix + 1)
                          + x_pup_list ! (ix + 2) + x_pup_list ! (ix + 3));
             yy = 0.25 * (y_pup_list ! ix + y_pup_list ! (ix + 1)
                          + y_pup_list ! (ix + 2) + y_pup_list ! (ix + 3));
             dx = 0.25 * sum_list (map (\<lambda>ii. sqrt ((xx - x_pup_list ! (ix + ii))\<^sup>2
                                                   + (yy - y_pup_list ! (ix + ii))\<^sup>2))
                                        [0..<4])
         in Inr (chip_name, xx, yy, dx))
      else Inl IndexError)"

text \<open>Lines 32-79 without the guard: the map that the function stores.\<close>

definition build_map :: "lsst_env \<Rightarrow> py_error + pupil_coord_map" where
  "build_map env =
     (let name_list = map fst (corner_table env);
          n_chips = length (camera_detectors env);
          pup = map (\<lambda>(nm, pix). pupilCoordsFromPixelCoords env nm pix) (corner_table env);
          x_pup_list = map fst pup;
          y_pup_list = map snd pup
      in case collect (map (footprint name_list x_pup_list y_pup_list) [0..<n_chips]) of
           Inl e \<Rightarrow> Inl e
         | Inr fps \<Rightarrow>
             Inr \<lparr>pm_name = map fst fps,
                  pm_xx = map (\<lambda>(nm, xx, yy, dx). xx) fps,
                  pm_yy = map (\<lambda>(nm, xx, yy, dx). yy) fps,
                  pm_dp = map (\<lambda>(nm, xx, yy, dx). dx) fps\<rparr>)"

text \<open>
  The function: it takes the global \<^verbatim>\<open>_lsst_pupil_coord_map\<close> (\<open>None\<close> until built) and
  returns it with its outcome. An exception leaves the global as it was.
\<close>

definition build_lsst_pupil_coord_map ::
  "lsst_env \<Rightarrow> pupil_coord_map option \<Rightarrow> (py_error + unit) \<times> pupil_coord_map option" where
  "build_lsst_pupil_coord_map env st =
     (case st of
        Some m \<Rightarrow>
          (Inl (RuntimeError ''Calling _build_pupil_coord_map(), but it is already built.''), st)
      | None \<Rightarrow>
          (case build_map env of
             Inl e \<Rightarrow> (Inl e, None)
           | Inr m \<Rightarrow> (Inr (), Some m)))"

subsection \<open>\<^verbatim>\<open>chipNameFromPupilCoordsLSST\<close>\<close>

text \<open>
  Modelled from the spec: \<^verbatim>\<open>_validate_inputs\<close> of \<^verbatim>\<open>lsst.sims.utils.CodeUtilities\<close>,
  which is not among the sources. The inputs are all arrays of one length (the answer is
  \<open>True\<close>) or all numbers (the answer is \<open>False\<close>), and anything else is an error; the
  text of its message is not known.
\<close>

definition validate_inputs :: "pyarg list \<Rightarrow> string \<Rightarrow> py_error + bool" where
  "validate_inputs input_list method_name =
     (case input_list of
        [] \<Rightarrow> Inl IndexError
      | NdArray xs # rest \<Rightarrow>
          if list_all (\<lambda>a. case a of NdArray ys \<Rightarrow> length ys = length xs | _ \<Rightarrow> False) rest
          then Inr True
          else Inl (RuntimeError (''invalid inputs to '' @ method_name))
      | PyNum x # rest \<Rightarrow>
          if list_all (\<lambda>a. case a of PyNum y \<Rightarrow> True | _ \<Rightarrow> False) rest
          then Inr False
          else Inl (RuntimeError (''invalid inputs to '' @ method_name))
      | PyOther # rest \<Rightarrow> Inl (RuntimeError (''invalid inputs to '' @ method_name)))"

text \<open>The elements that iterating over an argument gives (used on validated arrays only).\<close>

fun array_values :: "pyarg \<Rightarrow> real list" where
  "array_values (NdArray xs) = xs"
| "array_values _ = []"

text \<open>\<^verbatim>\<open>_lsst_camera[name]\<close>: the detector of that name, a KeyError when there is none.\<close>

definition camera_getitem :: "lsst_env \<Rightarrow> string \<Rightarrow> py_error + detector" where
  "camera_getitem env nm =
     (case find (\<lambda>d. det_name d = nm) (camera_detectors env) of
        None \<Rightarrow> Inl KeyError
      | Some d \<Rightarrow> Inr d)"

text \<open>
  Lines 198-199: the indices that \<^verbatim>\<open>np.where\<close> returns. All four arrays of the map have
  one length. Where \<^verbatim>\<open>dp\<close> is zero numpy's quotient is \<open>inf\<close> or \<open>nan\<close> (the distance is
  not negative), and neither is below 1.1.
\<close>

definition possible_dexes :: "pupil_coord_map \<Rightarrow> real \<Rightarrow> real \<Rightarrow> nat list" where
  "possible_dexes m xx yy =
     filter (\<lambda>ii. pm_dp m ! ii \<noteq> 0 \<and>
                  sqrt ((xx - pm_xx m ! ii)\<^sup>2 + (yy - pm_yy m ! ii)\<^sup>2) / pm_dp m ! ii < 1.1)
            [0..<length (pm_dp m)]"

text \<open>
  Lines 196-202: the shortlist of every point. Subscripting the map while it is still
  \<^verbatim>\<open>None\<close> is a TypeError.
\<close>

definition valid_detectors ::
  "lsst_env \<Rightarrow> pupil_coord_map option \<Rightarrow> real list \<Rightarrow> real list \<Rightarrow> py_error + detector list list" where
  "valid_detectors env st xPupil yPupil =
     collect (map (\<lambda>(xx, yy).
                      case st of
                        None \<Rightarrow> Inl TypeError
                      | Some m \<Rightarrow>
                          collect (map (\<lambda>ii. camera_getitem env (pm_name m ! ii))
                                       (possible_dexes m xx yy)))
                  (zip xPupil yPupil))"

definition chipNameFromPupilCoordsLSST ::
  "lsst_env \<Rightarrow> pyarg \<Rightarrow> pyarg \<Rightarrow> bool \<Rightarrow> pupil_coord_map option
     \<Rightarrow> (py_error + entry list) \<times> pupil_coord_map option" where
  "chipNameFromPupilCoordsLSST env xPupil yPupil allow_multiple_chips st =
     (case (case st of None \<Rightarrow> build_lsst_pupil_coord_map env st | Some m \<Rightarrow> (Inr (), st)) of
        (Inl e, st1) \<Rightarrow> (Inl e, st1)
      | (Inr u, st1) \<Rightarrow>
          (case validate_inputs [xPupil, yPupil] ''chipNameFromPupilCoordsLSST'' of
             Inl e \<Rightarrow> (Inl e, st1)
           | Inr are_arrays \<Rightarrow>
               if \<not> are_arrays then
                 (Inl (RuntimeError
                    ''Pupil coordinates passed to chipNameFromPupilCoordsLSST must be in numpy arrays''),
                  st1)
               else
                 (let cameraPointList = zip (array_values xPupil) (array_values yPupil) in
                  case valid_detectors env st1 (array_values xPupil) (array_values yPupil) of
                    Inl e \<Rightarrow> (Inl e, st1)
                  | Inr vd \<Rightarrow>
                      (findDetectorsListLSST env cameraPointList vd allow_multiple_chips, st1))))"

subsection \<open>\<^verbatim>\<open>_chipNameFromRaDecLSST\<close>\<close>

definition chipNameFromRaDecLSST ::
  "lsst_env \<Rightarrow> pyarg \<Rightarrow> pyarg \<Rightarrow> ObservationMetaData option \<Rightarrow> real option \<Rightarrow> bool
     \<Rightarrow> pupil_coord_map option \<Rightarrow> (py_error + entry list) \<times> pupil_coord_map option" where
  "chipNameFromRaDecLSST env ra dec obs_metadata epoch allow_multiple_chips st =
     (case validate_inputs [ra, dec] ''chipNameFromRaDecLSST'' of
        Inl e \<Rightarrow> (Inl e, st)
      | Inr are_arrays \<Rightarrow>
          (case epoch of
             None \<Rightarrow> (Inl (RuntimeError ''You need to pass an epoch into chipName''), st)
           | Some ep \<Rightarrow>
               (case obs_metadata of
                  None \<Rightarrow>
                    (Inl (RuntimeError ''You need to pass an ObservationMetaData into chipName''), st)
                | Some obs \<Rightarrow>
                    if mjd obs = None then
                      (Inl (RuntimeError
                         ''You need to pass an ObservationMetaData with an mjd into chipName''), st)
                    else if rotSkyPos obs = None then
                      (Inl (RuntimeError
                         ''You need to pass an ObservationMetaData with a rotSkyPos into chipName''),
                       st)
                    else
                      (case pupilCoordsFromRaDec env ra dec obs ep of
                         (xp, yp) \<Rightarrow>
                           chipNameFromPupilCoordsLSST env xp yp allow_multiple_chips st))))"

subsection \<open>The footprint of a chip, as the specification words it\<close>

definition euclid :: "point \<Rightarrow> point \<Rightarrow> real" where
  "euclid p q = sqrt ((fst p - fst q)\<^sup>2 + (snd p - snd q)\<^sup>2)"

text \<open>Corner \<open>k\<close> of a chip in pupil coordinates.\<close>

definition pupil_corner :: "lsst_env \<Rightarrow> detector \<Rightarrow> nat \<Rightarrow> point" where
  "pupil_corner env chip k =
     pupilCoordsFromPixelCoords env (det_name chip) (getCornerPixels env (det_name chip) ! k)"

text \<open>
  Name, centre and radius: the centre is the mean of the four corners, the radius the mean
  of their four distances to the centre.
\<close>

definition spec_footprint :: "lsst_env \<Rightarrow> detector \<Rightarrow> string \<times> real \<times> real \<times> real" where
  "spec_footprint env chip =
     (let c = pupil_corner env chip;
          xx = (fst (c 0) + fst (c 1) + fst (c 2) + fst (c 3)) / 4;
          yy = (snd (c 0) + snd (c 1) + snd (c 2) + snd (c 3)) / 4
      in (det_name chip, xx, yy,
          (euclid (xx, yy) (c 0) + euclid (xx, yy) (c 1) + euclid (xx, yy) (c 2)
           + euclid (xx, yy) (c 3)) / 4))"

text \<open>
  The point with index \<open>i\<close> of a batch is inside the box of a detector: what line 144
  tests, on the point as lines 112 and 141 transform it.
\<close>

definition inside :: "lsst_env \<Rightarrow> point list \<Rightarrow> detector \<Rightarrow> nat \<Rightarrow> bool" where
  "inside env cameraPointList detector i =
     boxContains env detector
       (transformToPixels env detector (transformToNative env (cameraPointList ! i)))"

subsection \<open>Two small cameras\<close>

text \<open>
  Two ordinary chips of 12 by 16 pixels, ten pixels to the unit of the pupil plane: chip A
  around (0, 0) and chip B around (10, 0), both of radius 1.
\<close>

definition chipA :: detector where
  "chipA = \<lparr>det_name = ''A'', det_type = SCIENCE\<rparr>"

definition chipB :: detector where
  "chipB = \<lparr>det_name = ''B'', det_type = SCIENCE\<rparr>"

definition two_chip_env :: lsst_env where
  "two_chip_env =
     \<lparr>camera_detectors = [chipA, chipB],
      transformToNative = (\<lambda>p. p),
      transformToPixels = (\<lambda>d p. if det_name d = ''A''
                                   then (10 * fst p + 6, 10 * snd p + 8)
                                   else (10 * (fst p - 10) + 6, 10 * snd p + 8)),
      boxContains = (\<lambda>d p. 0 \<le> fst p \<and> fst p < 12 \<and> 0 \<le> snd p \<and> snd p < 16),
      getCornerPixels = (\<lambda>nm. [(0, 0), (0, 16), (12, 16), (12, 0)]),
      pupilCoordsFromPixelCoords = (\<lambda>nm p. if nm = ''A''
                                   then ((fst p - 6) / 10, (snd p - 8) / 10)
                                   else ((fst p - 6) / 10 + 10, (snd p - 8) / 10)),
      pupilCoordsFromRaDec = (\<lambda>ra dec obs ep. (ra, dec))\<rparr>"

text \<open>
  Two wavefront sensors whose boxes overlap (W1 covers x from 0 to 2, W2 from 1 to 3), and
  two ordinary chips S1 and S2 with the same two boxes.
\<close>

definition sensorW1 :: detector where
  "sensorW1 = \<lparr>det_name = ''W1'', det_type = WAVEFRONT\<rparr>"

definition sensorW2 :: detector where
  "sensorW2 = \<lparr>det_name = ''W2'', det_type = WAVEFRONT\<rparr>"

definition chipS1 :: detector where
  "chipS1 = \<lparr>det_name = ''S1'', det_type = SCIENCE\<rparr>"

definition chipS2 :: detector where
  "chipS2 = \<lparr>det_name = ''S2'', det_type = SCIENCE\<rparr>"

definition overlap_env :: lsst_env where
  "overlap_env =
     \<lparr>camera_detectors = [sensorW1, sensorW2, chipS1, chipS2],
      transformToNative = (\<lambda>p. p),
      transformToPixels = (\<lambda>d p. p),
      boxContains = (\<lambda>d p. if det_name d = ''W1'' \<or> det_name d = ''S1''
                             then 0 \<le> fst p \<and> fst p < 2
                             else 1 \<le> fst p \<and> fst p < 3),
      getCornerPixels = (\<lambda>nm. []),
      pupilCoordsFromPixelCoords = (\<lambda>nm p. p),
      pupilCoordsFromRaDec = (\<lambda>ra dec obs ep. (ra, dec))\<rparr>"

subsection \<open>Notions for the proofs about \<^verbatim>\<open>_findDetectorsListLSST\<close>\<close>

text \<open>The names an entry of \<^verbatim>\<open>outputNameList\<close> holds.\<close>

fun slot_names :: "slot \<Rightarrow> string list" where
  "slot_names SNone = []"
| "slot_names (SName n) = [n]"
| "slot_names (SList ns) = ns"

text \<open>What lines 145-154 make of an entry when a detector called \<open>nm\<close> contains the point.\<close>

definition new_slot :: "bool \<Rightarrow> string \<Rightarrow> slot \<Rightarrow> slot" where
  "new_slot multiple nm old =
     (if \<not> multiple then SName nm
      else (case old of
              SNone \<Rightarrow> SName nm
            | SList ns \<Rightarrow> SList (ns @ [nm])
            | SName n0 \<Rightarrow> SList [n0, nm]))"

text \<open>Lines 143-154 with the box test of each index given as a predicate.\<close>

definition apply_hits :: "bool list \<Rightarrow> string \<Rightarrow> (nat \<Rightarrow> bool) \<Rightarrow> nat list \<Rightarrow> rstate \<Rightarrow> rstate" where
  "apply_hits cbm nm hit dexes s =
     fold (\<lambda>ix st. if hit ix then record_hit cbm nm ix st else st) dexes s"

text \<open>\<^verbatim>\<open>unfound_pts\<close> and \<^verbatim>\<open>valid_pt_dexes\<close> in a state, when no index is out of range.\<close>

definition unfound :: "rstate \<Rightarrow> nat list" where
  "unfound s = filter (\<lambda>i. chip_has_found s ! i < 0) [0..<length (chip_has_found s)]"

definition batch :: "detector list list \<Rightarrow> rstate \<Rightarrow> detector \<Rightarrow> nat list" where
  "batch dl s d = filter (\<lambda>ii. d \<in> set (dl ! ii)) (unfound s)"

text \<open>The first logged test that contains the point \<open>i\<close>.\<close>

definition first_hit ::
  "lsst_env \<Rightarrow> point list \<Rightarrow> (detector \<times> nat list) list \<Rightarrow> nat \<Rightarrow> (detector \<times> nat list) option" where
  "first_hit env pts batches i = find (\<lambda>(d, ixs). i \<in> set ixs \<and> inside env pts d i) batches"

text \<open>The start of the search (lines 114-116).\<close>

definition initial_state :: "nat \<Rightarrow> rstate" where
  "initial_state n =
     \<lparr>outputNameList = replicate n SNone,
      chip_has_found = replicate n (- 1),
      checked_detectors = [],
      tests = []\<rparr>"

text \<open>The invariant of the search, in parts.\<close>

definition inv_len :: "nat \<Rightarrow> rstate \<Rightarrow> bool" where
  "inv_len n s \<longleftrightarrow> length (outputNameList s) = n \<and> length (chip_has_found s) = n"

definition inv_names :: "nat \<Rightarrow> rstate \<Rightarrow> bool" where
  "inv_names n s \<longleftrightarrow>
     distinct (checked_detectors s) \<and>
     (\<forall>j<n. set (slot_names (outputNameList s ! j)) \<subseteq> set (checked_detectors s)
            \<and> distinct (slot_names (outputNameList s ! j))
            \<and> (\<forall>ns. outputNameList s ! j = SList ns \<longrightarrow> 2 \<le> length ns))"

definition inv_tests :: "detector list list \<Rightarrow> nat \<Rightarrow> rstate \<Rightarrow> bool" where
  "inv_tests dl n s \<longleftrightarrow>
     distinct (map (\<lambda>t. det_name (fst t)) (tests s)) \<and>
     (\<forall>t\<in>set (tests s).
        det_name (fst t) \<in> set (checked_detectors s) \<and> snd t \<noteq> [] \<and>
        (\<forall>j\<in>set (snd t). j < n \<and> fst t \<in> set (dl ! j)))"

definition inv_sound :: "lsst_env \<Rightarrow> point list \<Rightarrow> detector list list \<Rightarrow> rstate \<Rightarrow> bool" where
  "inv_sound env pts dl s \<longleftrightarrow>
     (\<forall>j<length pts. \<forall>nm\<in>set (slot_names (outputNameList s ! j)).
        \<exists>d\<in>set (dl ! j). det_name d = nm \<and> inside env pts d j)"

definition inv_found :: "bool list \<Rightarrow> nat \<Rightarrow> rstate \<Rightarrow> bool" where
  "inv_found cbm n s \<longleftrightarrow>
     (\<forall>j<n. (cbm ! j \<longrightarrow> chip_has_found s ! j < 0) \<and>
            (\<not> cbm ! j \<longrightarrow>
               (chip_has_found s ! j < 0 \<longleftrightarrow> outputNameList s ! j = SNone)
               \<and> (\<forall>ns. outputNameList s ! j \<noteq> SList ns)))"

definition inv_first :: "lsst_env \<Rightarrow> point list \<Rightarrow> bool list \<Rightarrow> rstate \<Rightarrow> bool" where
  "inv_first env pts cbm s \<longleftrightarrow>
     (\<forall>j<length pts. \<not> cbm ! j \<longrightarrow>
        outputNameList s ! j =
          (case first_hit env pts (tests s) j of
             None \<Rightarrow> SNone
           | Some t \<Rightarrow> SName (det_name (fst t))))"

definition inv_complete :: "detector list list \<Rightarrow> nat \<Rightarrow> rstate \<Rightarrow> bool" where
  "inv_complete dl n s \<longleftrightarrow>
     (\<forall>j<n. chip_has_found s ! j < 0 \<longrightarrow>
        (\<forall>d\<in>set (dl ! j). det_name d \<in> set (checked_detectors s) \<longrightarrow>
           (\<exists>ixs. (d, ixs) \<in> set (tests s) \<and> j \<in> set ixs)))"

text \<open>Every point is marked as found: the test of lines 130-131.\<close>

definition all_found :: "rstate \<Rightarrow> bool" where
  "all_found s \<longleftrightarrow> (\<forall>i<length (chip_has_found s). \<not> chip_has_found s ! i < 0)"

text \<open>
  What one execution of lines 129-154 for the detector \<open>d\<close> does to the state, whether it
  ends in the \<^verbatim>\<open>return\<close> of line 135 (then the batch is empty) or not.
\<close>

definition visited ::
  "lsst_env \<Rightarrow> point list \<Rightarrow> detector list list \<Rightarrow> bool list \<Rightarrow> detector \<Rightarrow> rstate \<Rightarrow> rstate \<Rightarrow> bool"
  where
  "visited env pts dl cbm d s s' \<longleftrightarrow>
     checked_detectors s' = checked_detectors s @ [det_name d] \<and>
     tests s' = tests s @ (if batch dl s d = [] then [] else [(d, batch dl s d)]) \<and>
     length (outputNameList s') = length pts \<and>
     length (chip_has_found s') = length pts \<and>
     (\<forall>j<length pts.
        outputNameList s' ! j =
          (if j \<in> set (batch dl s d) \<and> inside env pts d j
           then new_slot (cbm ! j) (det_name d) (outputNameList s ! j)
           else outputNameList s ! j)) \<and>
     (\<forall>j<length pts.
        chip_has_found s' ! j =
          (if j \<in> set (batch dl s d) \<and> inside env pts d j \<and> \<not> cbm ! j
           then 1 else chip_has_found s ! j))"

text \<open>A loop ends without an exception, in a state with \<open>P\<close>; after a \<^verbatim>\<open>return\<close> all
  points are found.\<close>

fun flow_ok :: "(rstate \<Rightarrow> bool) \<Rightarrow> flow \<Rightarrow> bool" where
  "flow_ok P (Running s) = P s"
| "flow_ok P (Returned s) = (P s \<and> all_found s)"
| "flow_ok P (Raised e) = False"

definition rinv ::
  "lsst_env \<Rightarrow> point list \<Rightarrow> detector list list \<Rightarrow> bool list \<Rightarrow> rstate \<Rightarrow> bool" where
  "rinv env pts dl cbm s \<longleftrightarrow>
     inv_len (length pts) s \<and> inv_names (length pts) s \<and> inv_tests dl (length pts) s \<and>
     inv_sound env pts dl s \<and> inv_found cbm (length pts) s \<and> inv_first env pts cbm s \<and>
     (inj_on det_name (\<Union> (set ` set dl)) \<longrightarrow> inv_complete dl (length pts) s)"

text \<open>From one state to a later one nothing is forgotten.\<close>

definition grows :: "nat \<Rightarrow> rstate \<Rightarrow> rstate \<Rightarrow> bool" where
  "grows n s s' \<longleftrightarrow>
     set (checked_detectors s) \<subseteq> set (checked_detectors s') \<and>
     (\<forall>j<n. outputNameList s ! j \<noteq> SNone \<longrightarrow> outputNameList s' ! j \<noteq> SNone)"

text \<open>\<^verbatim>\<open>could_be_multiple\<close> after lines 118-123.\<close>

definition eligible :: "detector list list \<Rightarrow> bool \<Rightarrow> nat \<Rightarrow> bool" where
  "eligible dl allow j \<longleftrightarrow> allow \<and> list_ex (\<lambda>det. det_type det = WAVEFRONT) (dl ! j)"

section \<open>Proofs\<close>

subsection \<open>Building the footprint map\<close>

lemma map_nth_upt_eq: "map (\<lambda>i. f (xs ! i)) [0..<length xs] = map f xs"
proof -
  have "map f (map ((!) xs) [0..<length xs]) = map f xs"
    by (simp only: map_nth)
  then show ?thesis
    by (simp only: map_map comp_def)
qed

lemma collect_map_Inr:
  "(\<And>x. x \<in> set xs \<Longrightarrow> f x = Inr (g x)) \<Longrightarrow> collect (map f xs) = Inr (map g xs)"
  by (induction xs) simp_all

lemma concat_four_length:
  "\<forall>xs\<in>set xss. length xs = 4 \<Longrightarrow> length (concat xss) = 4 * length xss"
  by (induction xss) simp_all

lemma concat_four_nth:
  "\<forall>xs\<in>set xss. length xs = 4 \<Longrightarrow> i < length xss \<Longrightarrow> k < 4 \<Longrightarrow>
   concat xss ! (i * 4 + k) = xss ! i ! k"
proof (induction xss arbitrary: i)
  case Nil
  then show ?case by simp
next
  case (Cons xs xss)
  show ?case
  proof (cases i)
    case 0
    with Cons.prems show ?thesis by (simp add: nth_append)
  next
    case (Suc j)
    with Cons.prems have "concat xss ! (j * 4 + k) = xss ! j ! k"
      using Cons.IH [of j] by simp
    with Suc Cons.prems show ?thesis by (simp add: nth_append)
  qed
qed

lemma corner_table_length:
  assumes "\<forall>chip\<in>set (camera_detectors env). length (getCornerPixels env (det_name chip)) = 4"
  shows "length (corner_table env) = 4 * length (camera_detectors env)"
  using assms unfolding corner_table_def
  by (subst concat_four_length) auto

lemma corner_table_nth:
  assumes "\<forall>chip\<in>set (camera_detectors env). length (getCornerPixels env (det_name chip)) = 4"
    and "i < length (camera_detectors env)" and "k < 4"
  shows "corner_table env ! (i * 4 + k) =
         (det_name (camera_detectors env ! i),
          getCornerPixels env (det_name (camera_detectors env ! i)) ! k)"
  using assms unfolding corner_table_def
  by (subst concat_four_nth) auto

lemma footprint_eq:
  assumes four: "\<forall>chip\<in>set (camera_detectors env). length (getCornerPixels env (det_name chip)) = 4"
    and i: "i < length (camera_detectors env)"
  shows "footprint (map fst (corner_table env))
           (map fst (map (\<lambda>(nm, pix). pupilCoordsFromPixelCoords env nm pix) (corner_table env)))
           (map snd (map (\<lambda>(nm, pix). pupilCoordsFromPixelCoords env nm pix) (corner_table env)))
           i
         = Inr (spec_footprint env (camera_detectors env ! i))"
proof -
  let ?chip = "camera_detectors env ! i"
  let ?names = "map fst (corner_table env)"
  let ?pup = "map (\<lambda>(nm, pix). pupilCoordsFromPixelCoords env nm pix) (corner_table env)"
  have len: "length (corner_table env) = 4 * length (camera_detectors env)"
    by (rule corner_table_length [OF four])
  have inr: "i * 4 + k < length (corner_table env)" if "k < 4" for k
    using len i that by simp
  have nth: "corner_table env ! (i * 4 + k) = (det_name ?chip, getCornerPixels env (det_name ?chip) ! k)"
    if "k < 4" for k
    using that by (rule corner_table_nth [OF four i])
  have pup: "?pup ! (i * 4 + k) = pupil_corner env ?chip k" if "k < 4" for k
    using inr [OF that] nth [OF that] by (simp add: pupil_corner_def)
  have x: "map fst ?pup ! (i * 4 + k) = fst (pupil_corner env ?chip k)" if "k < 4" for k
    using inr [OF that] pup [OF that] by (simp del: map_map)
  have y: "map snd ?pup ! (i * 4 + k) = snd (pupil_corner env ?chip k)" if "k < 4" for k
    using inr [OF that] pup [OF that] by (simp del: map_map)
  have nm: "?names ! (i * 4) = det_name ?chip"
    using inr [of 0] nth [of 0] by simp
  have guard: "i * 4 + 3 < length ?names"
    using inr [of 3] by simp
  have upt4: "[0..<4] = [0, 1, 2, 3::nat]"
    by (simp add: upt_conv_Cons)
  have x0: "map fst ?pup ! (i * 4) = fst (pupil_corner env ?chip 0)"
    using x [of 0] by simp
  have x0': "map fst ?pup ! (i * 4 + 0) = fst (pupil_corner env ?chip 0)"
    using x [of 0] by simp
  have x1: "map fst ?pup ! (i * 4 + 1) = fst (pupil_corner env ?chip 1)"
    using x [of 1] by simp
  have x2: "map fst ?pup ! (i * 4 + 2) = fst (pupil_corner env ?chip 2)"
    using x [of 2] by simp
  have x3: "map fst ?pup ! (i * 4 + 3) = fst (pupil_corner env ?chip 3)"
    using x [of 3] by simp
  have y0: "map snd ?pup ! (i * 4) = snd (pupil_corner env ?chip 0)"
    using y [of 0] by simp
  have y0': "map snd ?pup ! (i * 4 + 0) = snd (pupil_corner env ?chip 0)"
    using y [of 0] by simp
  have y1: "map snd ?pup ! (i * 4 + 1) = snd (pupil_corner env ?chip 1)"
    using y [of 1] by simp
  have y2: "map snd ?pup ! (i * 4 + 2) = snd (pupil_corner env ?chip 2)"
    using y [of 2] by simp
  have y3: "map snd ?pup ! (i * 4 + 3) = snd (pupil_corner env ?chip 3)"
    using y [of 3] by simp
  have "footprint ?names (map fst ?pup) (map snd ?pup) i =
        Inr (det_name ?chip,
             0.25 * (fst (pupil_corner env ?chip 0) + fst (pupil_corner env ?chip 1)
                     + fst (pupil_corner env ?chip 2) + fst (pupil_corner env ?chip 3)),
             0.25 * (snd (pupil_corner env ?chip 0) + snd (pupil_corner env ?chip 1)
                     + snd (pupil_corner env ?chip 2) + snd (pupil_corner env ?chip 3)),
             0.25 * sum_list (map (\<lambda>k. sqrt
                ((0.25 * (fst (pupil_corner env ?chip 0) + fst (pupil_corner env ?chip 1)
                     + fst (pupil_corner env ?chip 2) + fst (pupil_corner env ?chip 3))
                   - fst (pupil_corner env ?chip k))\<^sup>2
                 + (0.25 * (snd (pupil_corner env ?chip 0) + snd (pupil_corner env ?chip 1)
                     + snd (pupil_corner env ?chip 2) + snd (pupil_corner env ?chip 3))
                   - snd (pupil_corner env ?chip k))\<^sup>2)) [0, 1, 2, 3]))"
    by (simp only: footprint_def Let_def upt4 list.map guard if_True
          x0 x0' x1 x2 x3 y0 y0' y1 y2 y3 nm)
  also have "\<dots> = Inr (spec_footprint env ?chip)"
    by (simp add: spec_footprint_def euclid_def Let_def)
  finally show ?thesis .
qed

lemma build_map_eq:
  assumes "\<forall>chip\<in>set (camera_detectors env). length (getCornerPixels env (det_name chip)) = 4"
  shows "build_map env =
     Inr \<lparr>pm_name = map (\<lambda>chip. fst (spec_footprint env chip)) (camera_detectors env),
          pm_xx = map (\<lambda>chip. fst (snd (spec_footprint env chip))) (camera_detectors env),
          pm_yy = map (\<lambda>chip. fst (snd (snd (spec_footprint env chip)))) (camera_detectors env),
          pm_dp = map (\<lambda>chip. snd (snd (snd (spec_footprint env chip)))) (camera_detectors env)\<rparr>"
proof -
  let ?f = "footprint (map fst (corner_table env))
           (map fst (map (\<lambda>(nm, pix). pupilCoordsFromPixelCoords env nm pix) (corner_table env)))
           (map snd (map (\<lambda>(nm, pix). pupilCoordsFromPixelCoords env nm pix) (corner_table env)))"
  let ?n = "length (camera_detectors env)"
  have "collect (map ?f [0..<?n])
      = Inr (map (\<lambda>i. spec_footprint env (camera_detectors env ! i)) [0..<?n])"
  proof (rule collect_map_Inr)
    fix x
    assume "x \<in> set [0..<?n]"
    then have "x < ?n" by simp
    then show "?f x = Inr (spec_footprint env (camera_detectors env ! x))"
      by (rule footprint_eq [OF assms])
  qed
  also have "map (\<lambda>i. spec_footprint env (camera_detectors env ! i)) [0..<?n]
      = map (spec_footprint env) (camera_detectors env)"
    by (rule map_nth_upt_eq)
  finally have c: "collect (map ?f [0..<?n]) = Inr (map (spec_footprint env) (camera_detectors env))" .
  show ?thesis
    unfolding build_map_def Let_def
    by (simp only: c sum.case) (simp add: case_prod_beta comp_def)
qed


lemma build_map_length:
  assumes "\<forall>chip\<in>set (camera_detectors env). length (getCornerPixels env (det_name chip)) = 4"
    and "build_map env = Inr m"
  shows "pm_name m = map det_name (camera_detectors env)"
    and "length (pm_xx m) = length (camera_detectors env)"
    and "length (pm_yy m) = length (camera_detectors env)"
    and "length (pm_dp m) = length (camera_detectors env)"
  using assms(2) unfolding build_map_eq [OF assms(1)]
  by (auto simp: spec_footprint_def Let_def)

lemma build_map_nth:
  assumes "\<forall>chip\<in>set (camera_detectors env). length (getCornerPixels env (det_name chip)) = 4"
    and "build_map env = Inr m"
    and "i < length (camera_detectors env)"
  shows "(pm_name m ! i, pm_xx m ! i, pm_yy m ! i, pm_dp m ! i)
         = spec_footprint env (camera_detectors env ! i)"
  using assms(2,3) unfolding build_map_eq [OF assms(1)]
  by auto

lemma two_chip_four:
  "\<forall>chip\<in>set (camera_detectors two_chip_env).
     length (getCornerPixels two_chip_env (det_name chip)) = 4"
  by (simp add: two_chip_env_def)

lemma two_chip_footprints:
  "spec_footprint two_chip_env chipA = (''A'', 0, 0, 1)"
  "spec_footprint two_chip_env chipB = (''B'', 10, 0, 1)"
  by (simp_all add: spec_footprint_def pupil_corner_def euclid_def two_chip_env_def chipA_def
        chipB_def Let_def power2_eq_square)

lemma two_chip_built:
  assumes "build_map two_chip_env = Inr m"
  shows "(pm_name m ! 0, pm_xx m ! 0, pm_yy m ! 0, pm_dp m ! 0) = (''A'', 0, 0, 1)"
    and "(pm_name m ! 1, pm_xx m ! 1, pm_yy m ! 1, pm_dp m ! 1) = (''B'', 10, 0, 1)"
proof -
  have dets: "camera_detectors two_chip_env = [chipA, chipB]"
    by (simp add: two_chip_env_def)
  have "(pm_name m ! 0, pm_xx m ! 0, pm_yy m ! 0, pm_dp m ! 0)
        = spec_footprint two_chip_env chipA"
    using build_map_nth [OF two_chip_four assms, of 0] by (simp add: dets)
  then show "(pm_name m ! 0, pm_xx m ! 0, pm_yy m ! 0, pm_dp m ! 0) = (''A'', 0, 0, 1)"
    by (simp only: two_chip_footprints)
  have "(pm_name m ! 1, pm_xx m ! 1, pm_yy m ! 1, pm_dp m ! 1)
        = spec_footprint two_chip_env chipB"
    using build_map_nth [OF two_chip_four assms, of 1] by (simp add: dets)
  then show "(pm_name m ! 1, pm_xx m ! 1, pm_yy m ! 1, pm_dp m ! 1) = (''B'', 10, 0, 1)"
    by (simp only: two_chip_footprints)
qed

text \<open>
  C3. If the corner extractor gives four corners for every chip, a first build succeeds and
  stores one entry per chip, in camera order: the name of the chip, as centre the mean of its
  four corners in pupil coordinates, and as radius the mean of the four distances from that
  centre to the corners.
\<close>

theorem footprint_index_is_mean_of_corners:
  assumes "\<forall>chip\<in>set (camera_detectors env). length (getCornerPixels env (det_name chip)) = 4"
  shows "\<exists>m. build_lsst_pupil_coord_map env None = (Inr (), Some m)
           \<and> length (pm_name m) = length (camera_detectors env)
           \<and> length (pm_xx m) = length (camera_detectors env)
           \<and> length (pm_yy m) = length (camera_detectors env)
           \<and> length (pm_dp m) = length (camera_detectors env)
           \<and> (\<forall>i<length (camera_detectors env).
                 (pm_name m ! i, pm_xx m ! i, pm_yy m ! i, pm_dp m ! i)
                 = spec_footprint env (camera_detectors env ! i))"
proof -
  obtain m where m: "build_map env = Inr m"
    using build_map_eq [OF assms] by blast
  have "build_lsst_pupil_coord_map env None = (Inr (), Some m)"
    by (simp add: build_lsst_pupil_coord_map_def m)
  moreover have "length (pm_name m) = length (camera_detectors env)"
    using build_map_length(1) [OF assms m] by simp
  ultimately show ?thesis
    using build_map_length(2-4) [OF assms m] build_map_nth [OF assms m] by blast
qed

theorem footprint_index_is_mean_of_corners_witness:
  "length (getCornerPixels two_chip_env (det_name chipA)) = 4
   \<and> length (getCornerPixels two_chip_env (det_name chipB)) = 4
   \<and> (\<exists>m. build_lsst_pupil_coord_map two_chip_env None = (Inr (), Some m)
          \<and> length (pm_name m) = 2
          \<and> (pm_name m ! 0, pm_xx m ! 0, pm_yy m ! 0, pm_dp m ! 0) = (''A'', 0, 0, 1)
          \<and> (pm_name m ! 1, pm_xx m ! 1, pm_yy m ! 1, pm_dp m ! 1) = (''B'', 10, 0, 1))"
proof -
  obtain m where m: "build_lsst_pupil_coord_map two_chip_env None = (Inr (), Some m)"
      "length (pm_name m) = length (camera_detectors two_chip_env)"
      "\<forall>i<length (camera_detectors two_chip_env).
         (pm_name m ! i, pm_xx m ! i, pm_yy m ! i, pm_dp m ! i)
         = spec_footprint two_chip_env (camera_detectors two_chip_env ! i)"
    using footprint_index_is_mean_of_corners [OF two_chip_four] by blast
  have dets: "camera_detectors two_chip_env = [chipA, chipB]"
    by (simp add: two_chip_env_def)
  have "(pm_name m ! 0, pm_xx m ! 0, pm_yy m ! 0, pm_dp m ! 0)
        = spec_footprint two_chip_env chipA"
    using m(3) [rule_format, of 0] by (simp add: dets)
  then have "(pm_name m ! 0, pm_xx m ! 0, pm_yy m ! 0, pm_dp m ! 0) = (''A'', 0, 0, 1)"
    by (simp only: two_chip_footprints)
  moreover have "(pm_name m ! 1, pm_xx m ! 1, pm_yy m ! 1, pm_dp m ! 1)
        = spec_footprint two_chip_env chipB"
    using m(3) [rule_format, of 1] by (simp add: dets)
  then have "(pm_name m ! 1, pm_xx m ! 1, pm_yy m ! 1, pm_dp m ! 1) = (''B'', 10, 0, 1)"
    by (simp only: two_chip_footprints)
  moreover have "length (getCornerPixels two_chip_env (det_name chipA)) = 4"
    "length (getCornerPixels two_chip_env (det_name chipB)) = 4"
    by (simp_all add: two_chip_env_def)
  ultimately show ?thesis
    using m(1,2) by (auto simp: dets)
qed

subsection \<open>The guard of the build\<close>

lemma build_on_built:
  "build_lsst_pupil_coord_map env (Some m) =
     (Inl (RuntimeError ''Calling _build_pupil_coord_map(), but it is already built.''), Some m)"
  by (simp add: build_lsst_pupil_coord_map_def)

lemma build_success:
  assumes "build_lsst_pupil_coord_map env st = (Inr (), st')"
  shows "st = None \<and> (\<exists>m. st' = Some m \<and> build_map env = Inr m)"
  using assms
  by (auto simp: build_lsst_pupil_coord_map_def split: option.splits sum.splits)

lemma pupil_keeps_built_map:
  "snd (chipNameFromPupilCoordsLSST env xPupil yPupil allow (Some m)) = Some m"
  by (simp add: chipNameFromPupilCoordsLSST_def Let_def split: sum.splits)

lemma radec_keeps_built_map:
  "snd (chipNameFromRaDecLSST env ra dec obs_metadata epoch allow (Some m)) = Some m"
  by (simp add: chipNameFromRaDecLSST_def pupil_keeps_built_map
      split: sum.splits option.splits prod.splits)

text \<open>
  C8. A build while the map is already there raises the RuntimeError of line 29 and leaves
  the map alone. A build succeeds only from the unbuilt state and leaves a map on which
  the next build raises; and the two query functions hand a built map back as it is. So
  in a sequence of calls of the module at most one build succeeds.
\<close>

theorem build_twice_raises:
  "build_lsst_pupil_coord_map env (Some m) =
     (Inl (RuntimeError ''Calling _build_pupil_coord_map(), but it is already built.''), Some m)
   \<and> (\<forall>st st'. build_lsst_pupil_coord_map env st = (Inr (), st') \<longrightarrow>
          st = None \<and>
          (\<exists>m'. st' = Some m' \<and>
             build_lsst_pupil_coord_map env st' =
               (Inl (RuntimeError ''Calling _build_pupil_coord_map(), but it is already built.''),
                st')))
   \<and> snd (chipNameFromPupilCoordsLSST env xPupil yPupil allow (Some m)) = Some m
   \<and> snd (chipNameFromRaDecLSST env ra dec obs_metadata epoch allow (Some m)) = Some m"
proof -
  have "st = None \<and>
        (\<exists>m'. st' = Some m' \<and>
           build_lsst_pupil_coord_map env st' =
             (Inl (RuntimeError ''Calling _build_pupil_coord_map(), but it is already built.''),
              st'))"
    if "build_lsst_pupil_coord_map env st = (Inr (), st')" for st st'
    using build_success [OF that] build_on_built by auto
  then show ?thesis
    using build_on_built pupil_keeps_built_map radec_keeps_built_map by blast
qed

theorem build_twice_raises_witness:
  "\<exists>m'. build_lsst_pupil_coord_map two_chip_env None = (Inr (), Some m')
        \<and> build_lsst_pupil_coord_map two_chip_env (Some m') =
            (Inl (RuntimeError ''Calling _build_pupil_coord_map(), but it is already built.''),
             Some m')"
proof -
  obtain m where "build_map two_chip_env = Inr m"
    using build_map_eq [OF two_chip_four] by blast
  then have b: "build_lsst_pupil_coord_map two_chip_env None = (Inr (), Some m)"
    by (simp add: build_lsst_pupil_coord_map_def)
  show ?thesis
    using build_twice_raises [of two_chip_env m PyOther PyOther False PyOther PyOther None None]
      b by blast
qed

subsection \<open>The entry point from sky coordinates\<close>

text \<open>
  C7. When the ObservationMetaData is missing, or its mjd, or its rotSkyPos, the function
  raises. The exception and the footprint map it leaves are the same for every camera and
  every transform (none is consulted: the map is not even built), and when the inputs are
  valid and an epoch is given it is the RuntimeError of line 240, 243 or 246.
\<close>

theorem radec_requires_context:
  assumes "obs_metadata = None
           \<or> (\<exists>obs. obs_metadata = Some obs \<and> (mjd obs = None \<or> rotSkyPos obs = None))"
  shows "\<exists>e. chipNameFromRaDecLSST env ra dec obs_metadata epoch allow st = (Inl e, st)
           \<and> chipNameFromRaDecLSST env' ra dec obs_metadata epoch allow st = (Inl e, st)
           \<and> ((\<exists>b. validate_inputs [ra, dec] ''chipNameFromRaDecLSST'' = Inr b) \<and> epoch \<noteq> None
                \<longrightarrow> e = RuntimeError
                    (case obs_metadata of
                       None \<Rightarrow> ''You need to pass an ObservationMetaData into chipName''
                     | Some obs \<Rightarrow>
                         if mjd obs = None
                         then ''You need to pass an ObservationMetaData with an mjd into chipName''
                         else ''You need to pass an ObservationMetaData with a rotSkyPos into chipName''))"
  using assms
  by (auto simp: chipNameFromRaDecLSST_def split: sum.splits option.splits)

theorem radec_requires_context_witness:
  "chipNameFromRaDecLSST two_chip_env (NdArray [0]) (NdArray [0]) None (Some 2000) False None
     = (Inl (RuntimeError ''You need to pass an ObservationMetaData into chipName''), None)
   \<and> chipNameFromRaDecLSST two_chip_env (NdArray [0]) (NdArray [0])
        (Some \<lparr>mjd = None, rotSkyPos = Some 0\<rparr>) (Some 2000) False None
     = (Inl (RuntimeError ''You need to pass an ObservationMetaData with an mjd into chipName''),
        None)
   \<and> chipNameFromRaDecLSST two_chip_env (NdArray [0]) (NdArray [0])
        (Some \<lparr>mjd = Some 59000, rotSkyPos = None\<rparr>) (Some 2000) False None
     = (Inl (RuntimeError
          ''You need to pass an ObservationMetaData with a rotSkyPos into chipName''), None)"
proof -
  have v: "validate_inputs [NdArray [0], NdArray [0]] ''chipNameFromRaDecLSST'' = Inr True"
    by (simp add: validate_inputs_def)
  have 1: "None = None
           \<or> (\<exists>obs. None = Some obs \<and> (mjd obs = None \<or> rotSkyPos obs = None))"
    by simp
  have 2: "Some \<lparr>mjd = None, rotSkyPos = Some 0\<rparr> = None
           \<or> (\<exists>obs. Some \<lparr>mjd = None, rotSkyPos = Some 0\<rparr> = Some obs
                 \<and> (mjd obs = None \<or> rotSkyPos obs = None))"
    by simp
  have 3: "Some \<lparr>mjd = Some 59000, rotSkyPos = None\<rparr> = None
           \<or> (\<exists>obs. Some \<lparr>mjd = Some 59000, rotSkyPos = None\<rparr> = Some obs
                 \<and> (mjd obs = None \<or> rotSkyPos obs = None))"
    by simp
  show ?thesis
    using radec_requires_context [OF 1, of two_chip_env "NdArray [0]" "NdArray [0]"
        "Some 2000" False None two_chip_env]
      radec_requires_context [OF 2, of two_chip_env "NdArray [0]" "NdArray [0]"
        "Some 2000" False None two_chip_env]
      radec_requires_context [OF 3, of two_chip_env "NdArray [0]" "NdArray [0]"
        "Some 2000" False None two_chip_env]
    by (auto simp: v)
qed

subsection \<open>Scalars at the entry point from pupil coordinates\<close>

text \<open>
  C9. With two numbers for \<^verbatim>\<open>xPupil\<close> and \<^verbatim>\<open>yPupil\<close> the function always raises; and
  unless the lazy build of line 187 has itself failed before the inputs are looked at
  (the map is there, or the build succeeds), the exception is the RuntimeError of line 192.
\<close>

theorem scalar_pupil_coords_raise:
  "(\<exists>e. fst (chipNameFromPupilCoordsLSST env (PyNum x) (PyNum y) allow st) = Inl e)
   \<and> (st \<noteq> None \<or> (\<exists>m. build_map env = Inr m) \<longrightarrow>
        fst (chipNameFromPupilCoordsLSST env (PyNum x) (PyNum y) allow st) =
          Inl (RuntimeError
            ''Pupil coordinates passed to chipNameFromPupilCoordsLSST must be in numpy arrays''))"
  by (auto simp: chipNameFromPupilCoordsLSST_def build_lsst_pupil_coord_map_def
      validate_inputs_def split: option.splits sum.splits)

theorem scalar_pupil_coords_raise_witness:
  "fst (chipNameFromPupilCoordsLSST two_chip_env (PyNum 0) (PyNum 0) False None) =
     Inl (RuntimeError
       ''Pupil coordinates passed to chipNameFromPupilCoordsLSST must be in numpy arrays'')"
proof -
  have "\<exists>m. build_map two_chip_env = Inr m"
    using build_map_eq [OF two_chip_four] by blast
  then show ?thesis
    using scalar_pupil_coords_raise [of two_chip_env 0 0 False None] by blast
qed

subsection \<open>The shortlist of a point\<close>

lemma camera_getitem_nth:
  assumes "distinct (map det_name (camera_detectors env))"
    and "i < length (camera_detectors env)"
  shows "camera_getitem env (det_name (camera_detectors env ! i)) = Inr (camera_detectors env ! i)"
proof -
  let ?ds = "camera_detectors env"
  have "\<not> det_name (?ds ! j) = det_name (?ds ! i)" if "j < i" for j
  proof
    assume eq: "det_name (?ds ! j) = det_name (?ds ! i)"
    have jl: "j < length (map det_name ?ds)" and il: "i < length (map det_name ?ds)"
      using that assms(2) by simp_all
    have "map det_name ?ds ! j = map det_name ?ds ! i"
      using that assms(2) eq by simp
    then have "j = i"
      using nth_eq_iff_index_eq [OF assms(1) jl il] by blast
    with that show False by simp
  qed
  then have "find (\<lambda>d. det_name d = det_name (?ds ! i)) ?ds = Some (?ds ! i)"
    using assms(2) by (auto simp: find_Some_iff)
  then show ?thesis
    by (simp add: camera_getitem_def)
qed

lemma possible_dexes_iff:
  "i \<in> set (possible_dexes m xx yy) \<longleftrightarrow>
     i < length (pm_dp m) \<and> pm_dp m ! i \<noteq> 0 \<and>
     euclid (xx, yy) (pm_xx m ! i, pm_yy m ! i) / pm_dp m ! i < 1.1"
  by (auto simp: possible_dexes_def euclid_def)

lemma valid_detectors_eq:
  assumes names: "distinct (map det_name (camera_detectors env))"
    and nm: "pm_name m = map det_name (camera_detectors env)"
    and dp: "length (pm_dp m) = length (camera_detectors env)"
  shows "valid_detectors env (Some m) xPupil yPupil =
         Inr (map (\<lambda>(xx, yy). map (\<lambda>ii. camera_detectors env ! ii) (possible_dexes m xx yy))
                  (zip xPupil yPupil))"
proof -
  have inner: "collect (map (\<lambda>ii. camera_getitem env (pm_name m ! ii)) (possible_dexes m xx yy))
        = Inr (map (\<lambda>ii. camera_detectors env ! ii) (possible_dexes m xx yy))" for xx yy
  proof (rule collect_map_Inr)
    fix ii
    assume "ii \<in> set (possible_dexes m xx yy)"
    then have "ii < length (camera_detectors env)"
      using dp by (simp add: possible_dexes_iff)
    then show "camera_getitem env (pm_name m ! ii) = Inr (camera_detectors env ! ii)"
      using camera_getitem_nth [OF names] by (simp add: nm)
  qed
  show ?thesis
    unfolding valid_detectors_def
    by (rule collect_map_Inr) (simp add: inner split: prod.splits)
qed

lemma nth_mem_map_nth:
  assumes "distinct xs" and "i < length xs" and "\<forall>j\<in>set js. j < length xs"
  shows "xs ! i \<in> set (map (\<lambda>j. xs ! j) js) \<longleftrightarrow> i \<in> set js"
  using assms by (auto simp: nth_eq_iff_index_eq)

lemma euclid_same_y: "euclid (a, b) (c, b) = \<bar>a - c\<bar>"
  by (simp add: euclid_def)

text \<open>
  C4. With the map as a first build leaves it (four corners per chip, distinct chip names),
  the shortlist of every point holds chips of the camera only, and a chip is in it exactly
  when its radius is not zero and the distance from the point to its centre, divided by
  the radius, is below 1.1. (With a zero radius numpy's quotient is \<open>inf\<close> or \<open>nan\<close>,
  which is not below 1.1: the chip is left out.)
\<close>

theorem shortlist_iff_within_margin:
  assumes four: "\<forall>chip\<in>set (camera_detectors env). length (getCornerPixels env (det_name chip)) = 4"
    and names: "distinct (map det_name (camera_detectors env))"
    and len: "length xPupil = length yPupil"
  shows "\<exists>m vd. build_lsst_pupil_coord_map env None = (Inr (), Some m)
           \<and> valid_detectors env (Some m) xPupil yPupil = Inr vd
           \<and> length vd = length xPupil
           \<and> (\<forall>k<length xPupil.
                 set (vd ! k) \<subseteq> set (camera_detectors env)
                 \<and> (\<forall>i<length (camera_detectors env).
                       camera_detectors env ! i \<in> set (vd ! k) \<longleftrightarrow>
                         pm_dp m ! i \<noteq> 0 \<and>
                         euclid (xPupil ! k, yPupil ! k) (pm_xx m ! i, pm_yy m ! i) / pm_dp m ! i
                           < 1.1))"
proof -
  let ?ds = "camera_detectors env"
  obtain m where m: "build_map env = Inr m"
    using build_map_eq [OF four] by blast
  have nm: "pm_name m = map det_name ?ds" and dp: "length (pm_dp m) = length ?ds"
    using build_map_length [OF four m] by simp_all
  let ?vd = "map (\<lambda>(xx, yy). map (\<lambda>ii. ?ds ! ii) (possible_dexes m xx yy)) (zip xPupil yPupil)"
  have b: "build_lsst_pupil_coord_map env None = (Inr (), Some m)"
    by (simp add: build_lsst_pupil_coord_map_def m)
  have v: "valid_detectors env (Some m) xPupil yPupil = Inr ?vd"
    by (rule valid_detectors_eq [OF names nm dp])
  have l: "length ?vd = length xPupil"
    using len by simp
  have dist: "distinct ?ds"
    using names by (rule distinct_map [THEN iffD1, THEN conjunct1])
  have k: "set (?vd ! k) \<subseteq> set ?ds
           \<and> (\<forall>i<length ?ds. ?ds ! i \<in> set (?vd ! k) \<longleftrightarrow>
                 pm_dp m ! i \<noteq> 0 \<and>
                 euclid (xPupil ! k, yPupil ! k) (pm_xx m ! i, pm_yy m ! i) / pm_dp m ! i < 1.1)"
    if "k < length xPupil" for k
  proof -
    have vk: "?vd ! k = map (\<lambda>ii. ?ds ! ii) (possible_dexes m (xPupil ! k) (yPupil ! k))"
      using that len by simp
    have below: "\<forall>j\<in>set (possible_dexes m (xPupil ! k) (yPupil ! k)). j < length ?ds"
      using dp by (simp add: possible_dexes_iff)
    have "set (?vd ! k) \<subseteq> set ?ds"
      unfolding vk using below by auto
    moreover have "?ds ! i \<in> set (?vd ! k) \<longleftrightarrow>
                 pm_dp m ! i \<noteq> 0 \<and>
                 euclid (xPupil ! k, yPupil ! k) (pm_xx m ! i, pm_yy m ! i) / pm_dp m ! i < 1.1"
      if "i < length ?ds" for i
      unfolding vk nth_mem_map_nth [OF dist that below]
      using that dp by (simp add: possible_dexes_iff)
    ultimately show ?thesis by blast
  qed
  show ?thesis
    using b v l k by blast
qed

theorem shortlist_iff_within_margin_witness:
  "length (getCornerPixels two_chip_env (det_name chipA)) = 4
   \<and> length (getCornerPixels two_chip_env (det_name chipB)) = 4
   \<and> distinct (map det_name (camera_detectors two_chip_env))
   \<and> length [0, 5 :: real] = length [0, 0 :: real]
   \<and> (\<exists>m vd. build_lsst_pupil_coord_map two_chip_env None = (Inr (), Some m)
          \<and> valid_detectors two_chip_env (Some m) [0, 5] [0, 0] = Inr vd
          \<and> length vd = 2
          \<and> chipA \<in> set (vd ! 0) \<and> chipB \<notin> set (vd ! 0)
          \<and> chipA \<notin> set (vd ! 1) \<and> chipB \<notin> set (vd ! 1))"
proof -
  have dets: "camera_detectors two_chip_env = [chipA, chipB]"
    by (simp add: two_chip_env_def)
  have names: "distinct (map det_name (camera_detectors two_chip_env))"
    by (simp add: dets chipA_def chipB_def)
  have len: "length [0, 5 :: real] = length [0, 0 :: real]"
    by simp
  obtain m vd where b: "build_lsst_pupil_coord_map two_chip_env None = (Inr (), Some m)"
    and v: "valid_detectors two_chip_env (Some m) [0, 5] [0, 0] = Inr vd"
    and l: "length vd = length [0, 5 :: real]"
    and k: "\<forall>k<length [0, 5 :: real].
              set (vd ! k) \<subseteq> set (camera_detectors two_chip_env)
              \<and> (\<forall>i<length (camera_detectors two_chip_env).
                    camera_detectors two_chip_env ! i \<in> set (vd ! k) \<longleftrightarrow>
                      pm_dp m ! i \<noteq> 0 \<and>
                      euclid ([0, 5] ! k, [0, 0] ! k) (pm_xx m ! i, pm_yy m ! i) / pm_dp m ! i
                        < 1.1)"
    using shortlist_iff_within_margin [OF two_chip_four names len] by blast
  have bm: "build_map two_chip_env = Inr m"
    using build_success [OF b] by simp
  have fa: "(pm_name m ! 0, pm_xx m ! 0, pm_yy m ! 0, pm_dp m ! 0) = (''A'', 0, 0, 1)"
    and fb: "(pm_name m ! 1, pm_xx m ! 1, pm_yy m ! 1, pm_dp m ! 1) = (''B'', 10, 0, 1)"
    using two_chip_built [OF bm] by simp_all
  have "chipA \<in> set (vd ! 0)"
    using k [rule_format, of 0, THEN conjunct2, rule_format, of 0] fa
    by (simp add: dets euclid_same_y)
  moreover have "chipB \<notin> set (vd ! 0)"
    using k [rule_format, of 0, THEN conjunct2, rule_format, of 1] fb
    by (simp add: dets euclid_same_y)
  moreover have "chipA \<notin> set (vd ! 1)"
    using k [rule_format, of 1, THEN conjunct2, rule_format, of 0] fa
    by (simp add: dets euclid_same_y)
  moreover have "chipB \<notin> set (vd ! 1)"
    using k [rule_format, of 1, THEN conjunct2, rule_format, of 1] fb
    by (simp add: dets euclid_same_y)
  moreover have "length (getCornerPixels two_chip_env (det_name chipA)) = 4"
    "length (getCornerPixels two_chip_env (det_name chipB)) = 4"
    by (simp_all add: two_chip_env_def)
  ultimately show ?thesis
    using b v l names by auto
qed

subsection \<open>One detector visited\<close>

lemma record_hit_fields:
  "outputNameList (record_hit cbm nm ix s) =
     (outputNameList s)[ix := new_slot (cbm ! ix) nm (outputNameList s ! ix)]"
  "chip_has_found (record_hit cbm nm ix s) =
     (if cbm ! ix then chip_has_found s else (chip_has_found s)[ix := 1])"
  "checked_detectors (record_hit cbm nm ix s) = checked_detectors s"
  "tests (record_hit cbm nm ix s) = tests s"
  by (simp_all add: record_hit_def new_slot_def split: slot.splits)

lemma apply_hits_Nil: "apply_hits cbm nm hit [] s = s"
  by (simp add: apply_hits_def)

lemma apply_hits_Cons:
  "apply_hits cbm nm hit (x # xs) s =
     apply_hits cbm nm hit xs (if hit x then record_hit cbm nm x s else s)"
  by (simp add: apply_hits_def)

lemma apply_hits_same:
  "checked_detectors (apply_hits cbm nm hit xs s) = checked_detectors s"
  "tests (apply_hits cbm nm hit xs s) = tests s"
  "length (outputNameList (apply_hits cbm nm hit xs s)) = length (outputNameList s)"
  "length (chip_has_found (apply_hits cbm nm hit xs s)) = length (chip_has_found s)"
  by (induction xs arbitrary: s; simp add: apply_hits_Nil apply_hits_Cons record_hit_fields)+

lemma apply_hits_out:
  assumes "distinct xs" and "j < length (outputNameList s)"
  shows "outputNameList (apply_hits cbm nm hit xs s) ! j =
         (if j \<in> set xs \<and> hit j then new_slot (cbm ! j) nm (outputNameList s ! j)
          else outputNameList s ! j)"
  using assms
proof (induction xs arbitrary: s)
  case Nil
  then show ?case by (simp add: apply_hits_Nil)
next
  case (Cons x xs)
  let ?s1 = "if hit x then record_hit cbm nm x s else s"
  have len: "j < length (outputNameList ?s1)"
    using Cons.prems by (simp add: record_hit_fields)
  have d: "distinct xs" and nx: "x \<notin> set xs"
    using Cons.prems by simp_all
  have ih: "outputNameList (apply_hits cbm nm hit xs ?s1) ! j =
         (if j \<in> set xs \<and> hit j then new_slot (cbm ! j) nm (outputNameList ?s1 ! j)
          else outputNameList ?s1 ! j)"
    by (rule Cons.IH [OF d len])
  show ?case
  proof (cases "j = x")
    case True
    with nx ih Cons.prems show ?thesis
      by (simp add: apply_hits_Cons record_hit_fields)
  next
    case False
    with ih Cons.prems show ?thesis
      by (simp add: apply_hits_Cons record_hit_fields)
  qed
qed

lemma apply_hits_chf:
  assumes "distinct xs" and "j < length (chip_has_found s)"
  shows "chip_has_found (apply_hits cbm nm hit xs s) ! j =
         (if j \<in> set xs \<and> hit j \<and> \<not> cbm ! j then 1 else chip_has_found s ! j)"
  using assms
proof (induction xs arbitrary: s)
  case Nil
  then show ?case by (simp add: apply_hits_Nil)
next
  case (Cons x xs)
  let ?s1 = "if hit x then record_hit cbm nm x s else s"
  have len: "j < length (chip_has_found ?s1)"
    using Cons.prems by (simp add: record_hit_fields)
  have d: "distinct xs" and nx: "x \<notin> set xs"
    using Cons.prems by simp_all
  have ih: "chip_has_found (apply_hits cbm nm hit xs ?s1) ! j =
         (if j \<in> set xs \<and> hit j \<and> \<not> cbm ! j then 1 else chip_has_found ?s1 ! j)"
    by (rule Cons.IH [OF d len])
  show ?case
  proof (cases "j = x")
    case True
    with nx ih Cons.prems show ?thesis
      by (simp add: apply_hits_Cons record_hit_fields)
  next
    case False
    with ih Cons.prems show ?thesis
      by (simp add: apply_hits_Cons record_hit_fields)
  qed
qed

lemma hit_loop_eq:
  "fold (\<lambda>(ix, pt) st. if boxContains env d pt then record_hit cbm nm ix st else st)
        (zip dexes (map (transformToPixels env d) (map (\<lambda>ii. native ! ii) dexes))) s
   = apply_hits cbm nm (\<lambda>ix. boxContains env d (transformToPixels env d (native ! ix))) dexes s"
  by (induction dexes arbitrary: s) (simp_all add: apply_hits_Nil apply_hits_Cons)

lemma valid_pt_dexes_eq:
  "\<forall>ii\<in>set us. ii < length dl \<Longrightarrow>
   valid_pt_dexes d dl us = Inr (filter (\<lambda>ii. d \<in> set (dl ! ii)) us)"
  by (induction us) simp_all

lemma unfound_iff: "j \<in> set (unfound s) \<longleftrightarrow> j < length (chip_has_found s) \<and> chip_has_found s ! j < 0"
  by (auto simp: unfound_def)

lemma batch_iff:
  "j \<in> set (batch dl s d) \<longleftrightarrow>
     j < length (chip_has_found s) \<and> chip_has_found s ! j < 0 \<and> d \<in> set (dl ! j)"
  by (auto simp: batch_def unfound_iff)

lemma distinct_batch: "distinct (batch dl s d)"
  by (simp add: batch_def unfound_def)

lemma all_found_unfound: "all_found s \<longleftrightarrow> unfound s = []"
  by (auto simp: all_found_def unfound_def filter_empty_conv)

lemma apply_hits_inside:
  assumes "\<forall>ix\<in>set dexes. ix < length pts"
  shows "apply_hits cbm nm
           (\<lambda>ix. boxContains env d (transformToPixels env d (map (transformToNative env) pts ! ix)))
           dexes s
         = apply_hits cbm nm (inside env pts d) dexes s"
  using assms
  by (induction dexes arbitrary: s) (simp_all add: apply_hits_Nil apply_hits_Cons inside_def)

text \<open>The body of the detector loop, by cases.\<close>

lemma visit_detector_cases:
  assumes "length (chip_has_found s) \<le> length dl"
    and "length (chip_has_found s) = length pts"
  shows "visit_detector env dl cbm (map (transformToNative env) pts) d s =
     (if unfound s = [] then
        Returned (s\<lparr>checked_detectors := checked_detectors s @ [det_name d]\<rparr>)
      else if batch dl s d = [] then
        Running (s\<lparr>checked_detectors := checked_detectors s @ [det_name d]\<rparr>)
      else
        Running (apply_hits cbm (det_name d) (inside env pts d) (batch dl s d)
                   (s\<lparr>checked_detectors := checked_detectors s @ [det_name d],
                      tests := tests s @ [(d, batch dl s d)]\<rparr>)))"
proof -
  have r: "\<forall>ii\<in>set (unfound s). ii < length dl"
    using assms(1) by (auto simp: unfound_iff)
  have v: "valid_pt_dexes d dl (unfound s) = Inr (batch dl s d)"
    unfolding batch_def by (rule valid_pt_dexes_eq [OF r])
  have b: "\<forall>ix\<in>set (batch dl s d). ix < length pts"
    using assms(2) by (simp add: batch_iff)
  show ?thesis
    unfolding visit_detector_def Let_def
    by (simp add: unfound_def [symmetric] v hit_loop_eq apply_hits_inside [OF b] del: map_map)
qed

lemma visit_flow:
  assumes "inv_len (length pts) s" and "length pts \<le> length dl"
  shows "flow_ok (visited env pts dl cbm d s)
           (visit_detector env dl cbm (map (transformToNative env) pts) d s)"
proof -
  have l1: "length (chip_has_found s) \<le> length dl"
    and l2: "length (chip_has_found s) = length pts"
    and l3: "length (outputNameList s) = length pts"
    using assms by (simp_all add: inv_len_def)
  note c = visit_detector_cases [OF l1 l2, of env cbm d]
  let ?s1 = "s\<lparr>checked_detectors := checked_detectors s @ [det_name d]\<rparr>"
  let ?s2 = "s\<lparr>checked_detectors := checked_detectors s @ [det_name d],
               tests := tests s @ [(d, batch dl s d)]\<rparr>"
  show ?thesis
  proof (cases "unfound s = []")
    case True
    then have "batch dl s d = []"
      by (simp add: batch_def)
    with True show ?thesis
      unfolding c by (simp add: visited_def all_found_unfound unfound_def l2 l3)
  next
    case False
    show ?thesis
    proof (cases "batch dl s d = []")
      case True
      with False show ?thesis
        unfolding c by (simp add: visited_def l2 l3)
    next
      case nonempty: False
      have o: "\<forall>j<length pts.
          outputNameList (apply_hits cbm (det_name d) (inside env pts d) (batch dl s d) ?s2) ! j =
          (if j \<in> set (batch dl s d) \<and> inside env pts d j
           then new_slot (cbm ! j) (det_name d) (outputNameList s ! j)
           else outputNameList s ! j)"
        using apply_hits_out [OF distinct_batch [of dl s d], where s = ?s2 and cbm = cbm
            and nm = "det_name d" and hit = "inside env pts d"]
        by (simp add: l3)
      have f: "\<forall>j<length pts.
          chip_has_found (apply_hits cbm (det_name d) (inside env pts d) (batch dl s d) ?s2) ! j =
          (if j \<in> set (batch dl s d) \<and> inside env pts d j \<and> \<not> cbm ! j
           then 1 else chip_has_found s ! j)"
        using apply_hits_chf [OF distinct_batch [of dl s d], where s = ?s2 and cbm = cbm
            and nm = "det_name d" and hit = "inside env pts d"]
        by (simp add: l2)
      from False nonempty show ?thesis
        unfolding c using o f by (simp add: visited_def apply_hits_same l2 l3)
    qed
  qed
qed

lemma flow_ok_mono: "flow_ok P f \<Longrightarrow> (\<And>s. P s \<Longrightarrow> Q s) \<Longrightarrow> flow_ok Q f"
  by (cases f) auto

text \<open>An invariant of the visits is an invariant of the two loops.\<close>

lemma detector_loop_flow:
  assumes step: "\<And>d s s'. P s \<Longrightarrow> det_name d \<notin> set (checked_detectors s) \<Longrightarrow> d \<in> D
                    \<Longrightarrow> visited env pts dl cbm d s s' \<Longrightarrow> P s'"
    and len: "\<And>s. P s \<Longrightarrow> inv_len (length pts) s"
    and dl: "length pts \<le> length dl"
  shows "P s \<Longrightarrow> set ds \<subseteq> D \<Longrightarrow>
         flow_ok P (detector_loop env dl cbm (map (transformToNative env) pts) ds s)"
proof (induction ds arbitrary: s)
  case Nil
  then show ?case by simp
next
  case (Cons d ds)
  show ?case
  proof (cases "det_name d \<in> set (checked_detectors s)")
    case True
    with Cons show ?thesis by simp
  next
    case False
    have v: "flow_ok (visited env pts dl cbm d s)
               (visit_detector env dl cbm (map (transformToNative env) pts) d s)"
      by (rule visit_flow [OF len [OF Cons.prems(1)] dl])
    have dD: "d \<in> D"
      using Cons.prems(2) by simp
    show ?thesis
    proof (cases "visit_detector env dl cbm (map (transformToNative env) pts) d s")
      case (Running s')
      with v have "P s'"
        using step [OF Cons.prems(1) False dD] by simp
      then have "flow_ok P (detector_loop env dl cbm (map (transformToNative env) pts) ds s')"
        using Cons.IH Cons.prems(2) by simp
      with False Running show ?thesis by simp
    next
      case (Returned s')
      with v have "P s'" and "all_found s'"
        using step [OF Cons.prems(1) False dD] by simp_all
      with False Returned show ?thesis by simp
    next
      case (Raised e)
      with v show ?thesis by simp
    qed
  qed
qed

lemma point_loop_flow:
  assumes step: "\<And>d s s'. P s \<Longrightarrow> det_name d \<notin> set (checked_detectors s)
                    \<Longrightarrow> d \<in> \<Union> (set ` set dl)
                    \<Longrightarrow> visited env pts dl cbm d s s' \<Longrightarrow> P s'"
    and len: "\<And>s. P s \<Longrightarrow> inv_len (length pts) s"
    and dl: "length pts \<le> length dl"
  shows "P s \<Longrightarrow> \<forall>ipt\<in>set ipts. ipt < length dl \<Longrightarrow>
         flow_ok P (point_loop env dl cbm (map (transformToNative env) pts) ipts s)"
proof (induction ipts arbitrary: s)
  case Nil
  then show ?case by simp
next
  case (Cons ipt ipts)
  have rest: "\<forall>i\<in>set ipts. i < length dl" and ipt: "ipt < length dl"
    using Cons.prems(2) by simp_all
  show ?case
  proof (cases "outputNameList s ! ipt = SNone")
    case False
    with Cons.IH [OF Cons.prems(1) rest] show ?thesis by simp
  next
    case True
    have sub: "set (dl ! ipt) \<subseteq> \<Union> (set ` set dl)"
      using ipt by (auto intro: nth_mem)
    have d: "flow_ok P (detector_loop env dl cbm (map (transformToNative env) pts) (dl ! ipt) s)"
      by (rule detector_loop_flow [where P = P and D = "\<Union> (set ` set dl)",
            OF step len dl Cons.prems(1) sub])
    show ?thesis
    proof (cases "detector_loop env dl cbm (map (transformToNative env) pts) (dl ! ipt) s")
      case (Running s')
      with d have "P s'" by simp
      then have "flow_ok P (point_loop env dl cbm (map (transformToNative env) pts) ipts s')"
        by (rule Cons.IH [OF _ rest])
      with True ipt Running show ?thesis by simp
    next
      case (Returned s')
      with d True ipt show ?thesis by simp
    next
      case (Raised e)
      with d show ?thesis by simp
    qed
  qed
qed

subsection \<open>The invariant is kept by a visit\<close>

lemma slot_names_new_slot:
  "slot_names (new_slot m nm old) = (if m then slot_names old @ [nm] else [nm])"
  by (cases old) (simp_all add: new_slot_def)

lemma new_slot_list:
  "new_slot m nm old = SList ns \<Longrightarrow> (\<forall>ns0. old = SList ns0 \<longrightarrow> 2 \<le> length ns0) \<Longrightarrow> 2 \<le> length ns"
  by (cases old) (auto simp: new_slot_def split: if_splits)

lemma new_slot_single: "new_slot False nm old = SName nm"
  by (simp add: new_slot_def)

lemma new_slot_not_none: "new_slot m nm old \<noteq> SNone"
  by (cases old) (simp_all add: new_slot_def)

lemma visited_out:
  "visited env pts dl cbm d s s' \<Longrightarrow> j < length pts \<Longrightarrow>
   outputNameList s' ! j =
     (if j \<in> set (batch dl s d) \<and> inside env pts d j
      then new_slot (cbm ! j) (det_name d) (outputNameList s ! j)
      else outputNameList s ! j)"
  by (simp add: visited_def)

lemma visited_chf:
  "visited env pts dl cbm d s s' \<Longrightarrow> j < length pts \<Longrightarrow>
   chip_has_found s' ! j =
     (if j \<in> set (batch dl s d) \<and> inside env pts d j \<and> \<not> cbm ! j
      then 1 else chip_has_found s ! j)"
  by (simp add: visited_def)

lemma visited_checked:
  "visited env pts dl cbm d s s' \<Longrightarrow> checked_detectors s' = checked_detectors s @ [det_name d]"
  by (simp add: visited_def)

lemma visited_tests:
  "visited env pts dl cbm d s s' \<Longrightarrow>
   tests s' = tests s @ (if batch dl s d = [] then [] else [(d, batch dl s d)])"
  by (simp add: visited_def)

lemma inv_len_step:
  "visited env pts dl cbm d s s' \<Longrightarrow> inv_len (length pts) s'"
  by (simp add: visited_def inv_len_def)

lemma inv_names_step:
  assumes inv: "inv_names (length pts) s"
    and new: "det_name d \<notin> set (checked_detectors s)"
    and v: "visited env pts dl cbm d s s'"
  shows "inv_names (length pts) s'"
proof -
  have c: "checked_detectors s' = checked_detectors s @ [det_name d]"
    by (rule visited_checked [OF v])
  have d: "distinct (checked_detectors s')"
    using inv new by (simp add: c inv_names_def)
  have "set (slot_names (outputNameList s' ! j)) \<subseteq> set (checked_detectors s')
        \<and> distinct (slot_names (outputNameList s' ! j))
        \<and> (\<forall>ns. outputNameList s' ! j = SList ns \<longrightarrow> 2 \<le> length ns)"
    if j: "j < length pts" for j
  proof -
    have old: "set (slot_names (outputNameList s ! j)) \<subseteq> set (checked_detectors s)"
      "distinct (slot_names (outputNameList s ! j))"
      "\<forall>ns. outputNameList s ! j = SList ns \<longrightarrow> 2 \<le> length ns"
      using inv j by (simp_all add: inv_names_def)
    have fresh: "det_name d \<notin> set (slot_names (outputNameList s ! j))"
      using old(1) new by blast
    show ?thesis
    proof (cases "j \<in> set (batch dl s d) \<and> inside env pts d j")
      case True
      then have o: "outputNameList s' ! j = new_slot (cbm ! j) (det_name d) (outputNameList s ! j)"
        using visited_out [OF v j] by simp
      have "2 \<le> length ns" if "outputNameList s' ! j = SList ns" for ns
        using new_slot_list [OF that [unfolded o] old(3)] .
      then show ?thesis
        using old(1,2) fresh by (auto simp: o c slot_names_new_slot)
    next
      case False
      then have "outputNameList s' ! j = outputNameList s ! j"
        by (auto simp: visited_out [OF v j])
      then show ?thesis
        using old by (auto simp: c)
    qed
  qed
  then show ?thesis
    using d by (simp add: inv_names_def)
qed

lemma inv_tests_step:
  assumes inv: "inv_tests dl (length pts) s"
    and len: "inv_len (length pts) s"
    and new: "det_name d \<notin> set (checked_detectors s)"
    and v: "visited env pts dl cbm d s s'"
  shows "inv_tests dl (length pts) s'"
proof -
  have c: "checked_detectors s' = checked_detectors s @ [det_name d]"
    by (rule visited_checked [OF v])
  have t: "tests s' = tests s @ (if batch dl s d = [] then [] else [(d, batch dl s d)])"
    by (rule visited_tests [OF v])
  have old: "distinct (map (\<lambda>t. det_name (fst t)) (tests s))"
    "\<forall>t\<in>set (tests s).
        det_name (fst t) \<in> set (checked_detectors s) \<and> snd t \<noteq> [] \<and>
        (\<forall>j\<in>set (snd t). j < length pts \<and> fst t \<in> set (dl ! j))"
    using inv by (simp_all add: inv_tests_def)
  have fresh: "det_name d \<notin> (\<lambda>t. det_name (fst t)) ` set (tests s)"
    using old(2) new by auto
  have b: "\<forall>j\<in>set (batch dl s d). j < length pts \<and> d \<in> set (dl ! j)"
    using len by (simp add: batch_iff inv_len_def)
  show ?thesis
    unfolding inv_tests_def t c
    using old fresh b by auto
qed

lemma inv_sound_step:
  assumes inv: "inv_sound env pts dl s"
    and len: "inv_len (length pts) s"
    and v: "visited env pts dl cbm d s s'"
  shows "inv_sound env pts dl s'"
proof -
  have "\<exists>d'\<in>set (dl ! j). det_name d' = nm \<and> inside env pts d' j"
    if j: "j < length pts" and nm: "nm \<in> set (slot_names (outputNameList s' ! j))" for j nm
  proof (cases "j \<in> set (batch dl s d) \<and> inside env pts d j")
    case True
    then have o: "outputNameList s' ! j = new_slot (cbm ! j) (det_name d) (outputNameList s ! j)"
      using visited_out [OF v j] by simp
    have dj: "d \<in> set (dl ! j)"
      using True by (simp add: batch_iff)
    from nm have "nm = det_name d \<or> nm \<in> set (slot_names (outputNameList s ! j))"
      by (auto simp: o slot_names_new_slot split: if_splits)
    then show ?thesis
    proof
      assume "nm = det_name d"
      with True dj show ?thesis by blast
    next
      assume "nm \<in> set (slot_names (outputNameList s ! j))"
      with inv j show ?thesis by (simp add: inv_sound_def)
    qed
  next
    case False
    then have "outputNameList s' ! j = outputNameList s ! j"
      by (auto simp: visited_out [OF v j])
    with inv j nm show ?thesis by (simp add: inv_sound_def)
  qed
  then show ?thesis
    by (simp add: inv_sound_def)
qed

lemma inv_found_step:
  assumes inv: "inv_found cbm (length pts) s"
    and v: "visited env pts dl cbm d s s'"
  shows "inv_found cbm (length pts) s'"
proof -
  have "(cbm ! j \<longrightarrow> chip_has_found s' ! j < 0) \<and>
        (\<not> cbm ! j \<longrightarrow>
           (chip_has_found s' ! j < 0 \<longleftrightarrow> outputNameList s' ! j = SNone)
           \<and> (\<forall>ns. outputNameList s' ! j \<noteq> SList ns))"
    if j: "j < length pts" for j
  proof -
    have old: "cbm ! j \<longrightarrow> chip_has_found s ! j < 0"
      "\<not> cbm ! j \<longrightarrow> (chip_has_found s ! j < 0 \<longleftrightarrow> outputNameList s ! j = SNone)
           \<and> (\<forall>ns. outputNameList s ! j \<noteq> SList ns)"
      using inv j by (simp_all add: inv_found_def)
    show ?thesis
      using old by (auto simp: visited_out [OF v j] visited_chf [OF v j] new_slot_single)
  qed
  then show ?thesis
    by (simp add: inv_found_def)
qed

lemma find_snoc:
  "find P (xs @ [y]) = (case find P xs of Some x \<Rightarrow> Some x | None \<Rightarrow> if P y then Some y else None)"
  by (induction xs) simp_all

lemma first_hit_snoc:
  "first_hit env pts (bs @ [(d, b)]) j =
     (case first_hit env pts bs j of
        Some t \<Rightarrow> Some t
      | None \<Rightarrow> if j \<in> set b \<and> inside env pts d j then Some (d, b) else None)"
  by (simp add: first_hit_def find_snoc split: option.splits)

lemma inv_first_step:
  assumes inv: "inv_first env pts cbm s"
    and found: "inv_found cbm (length pts) s"
    and v: "visited env pts dl cbm d s s'"
  shows "inv_first env pts cbm s'"
proof -
  have t: "tests s' = tests s @ (if batch dl s d = [] then [] else [(d, batch dl s d)])"
    by (rule visited_tests [OF v])
  have "outputNameList s' ! j =
          (case first_hit env pts (tests s') j of
             None \<Rightarrow> SNone
           | Some t \<Rightarrow> SName (det_name (fst t)))"
    if j: "j < length pts" and single: "\<not> cbm ! j" for j
  proof -
    have old: "outputNameList s ! j =
          (case first_hit env pts (tests s) j of
             None \<Rightarrow> SNone
           | Some t \<Rightarrow> SName (det_name (fst t)))"
      using inv j single by (simp add: inv_first_def)
    have f: "chip_has_found s ! j < 0 \<longleftrightarrow> outputNameList s ! j = SNone"
      using found j single by (simp add: inv_found_def)
    show ?thesis
    proof (cases "j \<in> set (batch dl s d) \<and> inside env pts d j")
      case True
      then have ne: "batch dl s d \<noteq> []" by auto
      have "chip_has_found s ! j < 0"
        using True by (simp add: batch_iff)
      then have "first_hit env pts (tests s) j = None"
        using f old by (simp split: option.splits)
      then show ?thesis
        using True ne single
        by (simp add: visited_out [OF v j] t first_hit_snoc new_slot_single)
    next
      case False
      then show ?thesis
        using old
        by (auto simp: visited_out [OF v j] t first_hit_snoc split: option.splits)
    qed
  qed
  then show ?thesis
    by (simp add: inv_first_def)
qed

lemma inv_complete_step:
  assumes inv: "inv_complete dl (length pts) s"
    and len: "inv_len (length pts) s"
    and inj: "inj_on det_name (\<Union> (set ` set dl))"
    and dD: "d \<in> \<Union> (set ` set dl)"
    and dl: "length pts \<le> length dl"
    and v: "visited env pts dl cbm d s s'"
  shows "inv_complete dl (length pts) s'"
proof -
  have c: "checked_detectors s' = checked_detectors s @ [det_name d]"
    by (rule visited_checked [OF v])
  have t: "tests s' = tests s @ (if batch dl s d = [] then [] else [(d, batch dl s d)])"
    by (rule visited_tests [OF v])
  have "\<exists>ixs. (d', ixs) \<in> set (tests s') \<and> j \<in> set ixs"
    if j: "j < length pts" and un: "chip_has_found s' ! j < 0"
      and d': "d' \<in> set (dl ! j)" and ch: "det_name d' \<in> set (checked_detectors s')"
    for j d'
  proof -
    have un0: "chip_has_found s ! j < 0"
      using un by (simp add: visited_chf [OF v j] split: if_splits)
    show ?thesis
    proof (cases "det_name d' \<in> set (checked_detectors s)")
      case True
      then obtain ixs where "(d', ixs) \<in> set (tests s)" "j \<in> set ixs"
        using inv j un0 d' unfolding inv_complete_def by blast
      then show ?thesis
        by (auto simp: t)
    next
      case False
      then have nm: "det_name d' = det_name d"
        using ch by (simp add: c)
      have "d' \<in> \<Union> (set ` set dl)"
        using d' j dl by (auto intro!: bexI [of _ "dl ! j"])
      then have eq: "d' = d"
        using inj_onD [OF inj nm] dD by blast
      then have "j \<in> set (batch dl s d)"
        using d' un0 j len by (simp add: batch_iff inv_len_def)
      then show ?thesis
        using eq by (auto simp: t)
    qed
  qed
  then show ?thesis
    unfolding inv_complete_def by blast
qed

subsection \<open>The whole search\<close>

lemma mark_multiple_nth:
  assumes "\<forall>i\<in>set ipts. i < length dl"
  shows "\<exists>r. mark_multiple dl ipts cbm = Inr r \<and> length r = length cbm \<and>
             (\<forall>j<length cbm. r ! j =
                (cbm ! j \<or> (j \<in> set ipts \<and> list_ex (\<lambda>det. det_type det = WAVEFRONT) (dl ! j))))"
  using assms
proof (induction ipts arbitrary: cbm)
  case Nil
  then show ?case by simp
next
  case (Cons ipt ipts)
  let ?c = "if list_ex (\<lambda>det. det_type det = WAVEFRONT) (dl ! ipt) then cbm[ipt := True] else cbm"
  have "\<forall>i\<in>set ipts. i < length dl"
    using Cons.prems by simp
  from Cons.IH [OF this, of ?c]
  obtain r where r: "mark_multiple dl ipts ?c = Inr r" "length r = length ?c"
    "\<forall>j<length ?c. r ! j =
        (?c ! j \<or> (j \<in> set ipts \<and> list_ex (\<lambda>det. det_type det = WAVEFRONT) (dl ! j)))"
    by blast
  have "r ! j = (cbm ! j \<or> (j \<in> set (ipt # ipts)
                  \<and> list_ex (\<lambda>det. det_type det = WAVEFRONT) (dl ! j)))"
    if "j < length cbm" for j
    using r(3) [rule_format, of j] that by (cases "j = ipt") auto
  then show ?case
    using r(1,2) Cons.prems by simp
qed

lemma could_be_multiple_eq:
  assumes "length pts \<le> length dl"
  shows "\<exists>cbm. mark_multiple dl (if allow then [0..<length pts] else [])
                 (replicate (length pts) False) = Inr cbm
           \<and> length cbm = length pts
           \<and> (\<forall>j<length pts. cbm ! j = eligible dl allow j)"
proof -
  have "\<forall>i\<in>set (if allow then [0..<length pts] else []). i < length dl"
    using assms by auto
  from mark_multiple_nth [OF this, of "replicate (length pts) False"]
  show ?thesis
    by (auto simp: eligible_def)
qed

lemma rinv_initial: "rinv env pts dl cbm (initial_state (length pts))"
  by (simp add: rinv_def initial_state_def inv_len_def inv_names_def inv_tests_def
      inv_sound_def inv_found_def inv_first_def inv_complete_def first_hit_def)

lemma rinv_step:
  assumes "rinv env pts dl cbm s"
    and "det_name d \<notin> set (checked_detectors s)"
    and "d \<in> \<Union> (set ` set dl)"
    and "length pts \<le> length dl"
    and "visited env pts dl cbm d s s'"
  shows "rinv env pts dl cbm s'"
  using assms unfolding rinv_def
  by (blast intro: inv_len_step inv_names_step inv_tests_step inv_sound_step inv_found_step
      inv_first_step inv_complete_step)

lemma grows_refl: "grows n s s"
  by (simp add: grows_def)

lemma grows_trans: "grows n s s1 \<Longrightarrow> grows n s1 s2 \<Longrightarrow> grows n s s2"
  by (auto simp: grows_def)

lemma grows_step: "visited env pts dl cbm d s s' \<Longrightarrow> grows (length pts) s s'"
  by (auto simp: grows_def visited_def new_slot_not_none)

lemma detector_loop_grows:
  assumes "inv_len (length pts) s" and "length pts \<le> length dl"
  shows "flow_ok (\<lambda>s'. inv_len (length pts) s' \<and> grows (length pts) s s')
           (detector_loop env dl cbm (map (transformToNative env) pts) ds s)"
proof (rule detector_loop_flow [where D = UNIV])
  fix d s1 s2
  assume "inv_len (length pts) s1 \<and> grows (length pts) s s1"
    and "visited env pts dl cbm d s1 s2"
  then show "inv_len (length pts) s2 \<and> grows (length pts) s s2"
    using inv_len_step grows_step grows_trans by blast
qed (use assms in \<open>simp_all add: grows_refl\<close>)

lemma point_loop_grows:
  assumes "inv_len (length pts) s" and "length pts \<le> length dl"
    and "\<forall>ipt\<in>set ipts. ipt < length dl"
  shows "flow_ok (\<lambda>s'. inv_len (length pts) s' \<and> grows (length pts) s s')
           (point_loop env dl cbm (map (transformToNative env) pts) ipts s)"
proof (rule point_loop_flow)
  fix d s1 s2
  assume "inv_len (length pts) s1 \<and> grows (length pts) s s1"
    and "visited env pts dl cbm d s1 s2"
  then show "inv_len (length pts) s2 \<and> grows (length pts) s s2"
    using inv_len_step grows_step grows_trans by blast
qed (use assms in \<open>simp_all add: grows_refl\<close>)

text \<open>When the loop over a shortlist runs to its end, every detector of it has been visited.\<close>

lemma detector_loop_checks_all:
  assumes dl: "length pts \<le> length dl"
  shows "inv_len (length pts) s \<Longrightarrow>
         detector_loop env dl cbm (map (transformToNative env) pts) ds s = Running s' \<Longrightarrow>
         det_name ` set ds \<subseteq> set (checked_detectors s')"
proof (induction ds arbitrary: s)
  case Nil
  then show ?case by simp
next
  case (Cons d ds)
  show ?case
  proof (cases "det_name d \<in> set (checked_detectors s)")
    case True
    with Cons.prems(2)
    have run: "detector_loop env dl cbm (map (transformToNative env) pts) ds s = Running s'"
      by simp
    have "grows (length pts) s s'"
      using detector_loop_grows [OF Cons.prems(1) dl, of env cbm ds] run by simp
    with True Cons.IH [OF Cons.prems(1) run] show ?thesis
      by (auto simp: grows_def)
  next
    case False
    have v: "flow_ok (visited env pts dl cbm d s)
               (visit_detector env dl cbm (map (transformToNative env) pts) d s)"
      by (rule visit_flow [OF Cons.prems(1) dl])
    from False Cons.prems(2) obtain s1
      where s1: "visit_detector env dl cbm (map (transformToNative env) pts) d s = Running s1"
        and run: "detector_loop env dl cbm (map (transformToNative env) pts) ds s1 = Running s'"
      by (auto split: flow.splits)
    have vis: "visited env pts dl cbm d s s1"
      using v s1 by simp
    have l1: "inv_len (length pts) s1"
      by (rule inv_len_step [OF vis])
    have "grows (length pts) s1 s'"
      using detector_loop_grows [OF l1 dl, of env cbm ds] run by simp
    moreover have "det_name d \<in> set (checked_detectors s1)"
      using visited_checked [OF vis] by simp
    ultimately show ?thesis
      using Cons.IH [OF l1 run] by (auto simp: grows_def)
  qed
qed

text \<open>
  When the loop over the points runs to its end, every point has a result or has had its
  whole shortlist visited.
\<close>

lemma point_loop_checks_all:
  assumes dl: "length pts \<le> length dl"
  shows "inv_len (length pts) s \<Longrightarrow> \<forall>ipt\<in>set ipts. ipt < length pts \<Longrightarrow>
         point_loop env dl cbm (map (transformToNative env) pts) ipts s = Running s' \<Longrightarrow>
         \<forall>i\<in>set ipts. outputNameList s' ! i \<noteq> SNone
                        \<or> det_name ` set (dl ! i) \<subseteq> set (checked_detectors s')"
proof (induction ipts arbitrary: s)
  case Nil
  then show ?case by simp
next
  case (Cons ipt ipts)
  have rest: "\<forall>i\<in>set ipts. i < length pts" and ipt: "ipt < length pts"
    using Cons.prems(2) by simp_all
  have rest': "\<forall>i\<in>set ipts. i < length dl" and ipt': "ipt < length dl"
    using rest ipt dl by auto
  show ?case
  proof (cases "outputNameList s ! ipt = SNone")
    case False
    with Cons.prems(3)
    have run: "point_loop env dl cbm (map (transformToNative env) pts) ipts s = Running s'"
      by simp
    have "grows (length pts) s s'"
      using point_loop_grows [OF Cons.prems(1) dl rest', of env cbm] run by simp
    then have "outputNameList s' ! ipt \<noteq> SNone"
      using False ipt by (simp add: grows_def)
    with Cons.IH [OF Cons.prems(1) rest run] show ?thesis by simp
  next
    case True
    with Cons.prems(3) ipt' obtain s1
      where s1: "detector_loop env dl cbm (map (transformToNative env) pts) (dl ! ipt) s
                 = Running s1"
        and run: "point_loop env dl cbm (map (transformToNative env) pts) ipts s1 = Running s'"
      by (auto split: flow.splits)
    have l1: "inv_len (length pts) s1"
      using detector_loop_grows [OF Cons.prems(1) dl, of env cbm "dl ! ipt"] s1 by simp
    have "det_name ` set (dl ! ipt) \<subseteq> set (checked_detectors s1)"
      by (rule detector_loop_checks_all [OF dl Cons.prems(1) s1])
    moreover have "grows (length pts) s1 s'"
      using point_loop_grows [OF l1 dl rest', of env cbm] run by simp
    ultimately have "det_name ` set (dl ! ipt) \<subseteq> set (checked_detectors s')"
      by (auto simp: grows_def)
    with Cons.IH [OF l1 rest run] show ?thesis by simp
  qed
qed

text \<open>
  The search with one shortlist for every point ends without an exception, in a state with
  the invariant in which every point is marked found or has, if it has no result, had its
  whole shortlist visited.
\<close>

lemma exec_summary:
  assumes dl: "length pts \<le> length dl"
  shows "\<exists>s cbm. findDetectors_exec env pts dl allow = Inr s
           \<and> (\<forall>j<length pts. cbm ! j = eligible dl allow j)
           \<and> rinv env pts dl cbm s
           \<and> (all_found s \<or>
                (\<forall>i<length pts. outputNameList s ! i \<noteq> SNone
                    \<or> det_name ` set (dl ! i) \<subseteq> set (checked_detectors s)))"
proof -
  obtain cbm where cbm: "mark_multiple dl (if allow then [0..<length pts] else [])
                 (replicate (length pts) False) = Inr cbm"
    and el: "\<forall>j<length pts. cbm ! j = eligible dl allow j"
    using could_be_multiple_eq [OF dl] by blast
  let ?s0 = "initial_state (length pts)"
  let ?f = "point_loop env dl cbm (map (transformToNative env) pts) [0..<length pts] ?s0"
  have ex: "findDetectors_exec env pts dl allow =
            (case ?f of Running s \<Rightarrow> Inr s | Returned s \<Rightarrow> Inr s | Raised e \<Rightarrow> Inl e)"
    by (simp add: findDetectors_exec_def Let_def cbm initial_state_def)
  have r0: "\<forall>ipt\<in>set [0..<length pts]. ipt < length dl"
    using dl by simp
  have ok: "flow_ok (rinv env pts dl cbm) ?f"
  proof (rule point_loop_flow [OF _ _ dl _ r0])
    show "rinv env pts dl cbm ?s0"
      by (rule rinv_initial)
  next
    fix s assume "rinv env pts dl cbm s"
    then show "inv_len (length pts) s"
      by (simp add: rinv_def)
  next
    fix d s s'
    assume "rinv env pts dl cbm s" "det_name d \<notin> set (checked_detectors s)"
      "d \<in> \<Union> (set ` set dl)" "visited env pts dl cbm d s s'"
    then show "rinv env pts dl cbm s'"
      using rinv_step dl by blast
  qed
  have l0: "inv_len (length pts) ?s0"
    using rinv_initial [of env pts dl cbm] by (simp add: rinv_def)
  show ?thesis
  proof (cases ?f)
    case (Running s)
    have "\<forall>i\<in>set [0..<length pts]. outputNameList s ! i \<noteq> SNone
                        \<or> det_name ` set (dl ! i) \<subseteq> set (checked_detectors s)"
      by (rule point_loop_checks_all [OF dl l0 _ Running]) simp
    with ok Running ex el show ?thesis
      by auto
  next
    case (Returned s)
    with ok ex el show ?thesis
      by auto
  next
    case (Raised e)
    with ok show ?thesis by simp
  qed
qed

text \<open>Without a shortlist for every point the function raises IndexError.\<close>

lemma valid_pt_dexes_raises:
  "\<exists>ii\<in>set us. \<not> ii < length dl \<Longrightarrow> valid_pt_dexes d dl us = Inl IndexError"
  by (induction us) auto

lemma mark_multiple_raises:
  "\<exists>ipt\<in>set ipts. \<not> ipt < length dl \<Longrightarrow> mark_multiple dl ipts cbm = Inl IndexError"
  by (induction ipts arbitrary: cbm) auto

lemma unfound_initial: "unfound (initial_state n) = [0..<n]"
proof -
  have "filter (\<lambda>i. replicate n (- 1 :: int) ! i < 0) [0..<n] = [0..<n]"
    by (rule filter_True) simp
  then show ?thesis
    by (simp add: unfound_def initial_state_def)
qed

lemma visit_initial_raises:
  assumes "length dl < n"
  shows "visit_detector env dl cbm native d (initial_state n) = Raised IndexError"
proof -
  have u: "filter (\<lambda>i. chip_has_found (initial_state n) ! i < 0)
             [0..<length (chip_has_found (initial_state n))] = [0..<n]"
    using unfound_initial [of n] by (simp add: unfound_def)
  have c: "chip_has_found (initial_state n) = replicate n (- 1)"
    by (simp add: initial_state_def)
  have "\<exists>ii\<in>set [0..<n]. \<not> ii < length dl"
    using assms by (auto intro!: bexI [of _ "length dl"])
  then have "valid_pt_dexes d dl [0..<n] = Inl IndexError"
    by (rule valid_pt_dexes_raises)
  moreover have "[0..<n] \<noteq> []"
    using assms by simp
  ultimately show ?thesis
    using u by (simp add: visit_detector_def Let_def)
qed

lemma detector_loop_initial:
  assumes "length dl < n"
  shows "detector_loop env dl cbm native ds (initial_state n) = Running (initial_state n)
         \<or> detector_loop env dl cbm native ds (initial_state n) = Raised IndexError"
proof (cases ds)
  case Nil
  then show ?thesis by simp
next
  case (Cons d rest)
  have "checked_detectors (initial_state n) = []"
    by (simp add: initial_state_def)
  then show ?thesis
    using Cons visit_initial_raises [OF assms] by simp
qed

lemma point_loop_initial_raises:
  assumes "length dl < n"
  shows "\<forall>ipt\<in>set ipts. ipt < n \<Longrightarrow> \<exists>ipt\<in>set ipts. \<not> ipt < length dl \<Longrightarrow>
         point_loop env dl cbm native ipts (initial_state n) = Raised IndexError"
proof (induction ipts)
  case Nil
  then show ?case by simp
next
  case (Cons ipt ipts)
  have none: "outputNameList (initial_state n) ! ipt = SNone"
    using Cons.prems(1) by (simp add: initial_state_def)
  show ?case
  proof (cases "ipt < length dl")
    case False
    with none show ?thesis by simp
  next
    case True
    then have "\<exists>i\<in>set ipts. \<not> i < length dl"
      using Cons.prems(2) by auto
    then have "point_loop env dl cbm native ipts (initial_state n) = Raised IndexError"
      using Cons.IH Cons.prems(1) by simp
    then show ?thesis
      using none True detector_loop_initial [OF assms, of env cbm native "dl ! ipt"]
      by auto
  qed
qed

lemma missing_shortlist_raises:
  assumes "length dl < length pts"
  shows "findDetectorsListLSST env pts dl allow = Inl IndexError"
proof -
  have bad: "\<exists>ipt\<in>set [0..<length pts]. \<not> ipt < length dl"
    using assms by (auto intro!: bexI [of _ "length dl"])
  have p: "point_loop env dl cbm (map (transformToNative env) pts) [0..<length pts]
             (initial_state (length pts)) = Raised IndexError" for cbm
    by (rule point_loop_initial_raises [OF assms _ bad]) simp
  show ?thesis
  proof (cases allow)
    case True
    then show ?thesis
      using mark_multiple_raises [OF bad]
      by (simp add: findDetectorsListLSST_def findDetectors_exec_def Let_def)
  next
    case False
    then show ?thesis
      using p
      by (simp add: findDetectorsListLSST_def findDetectors_exec_def Let_def
          initial_state_def [symmetric])
  qed
qed

subsection \<open>What the search returns\<close>

lemma str_lists_nth:
  "i < length names \<Longrightarrow>
   str_lists names ! i =
     (case names ! i of SNone \<Rightarrow> ENone | SName n \<Rightarrow> EStr n | SList ns \<Rightarrow> EListStr ns)"
  by (simp add: str_lists_def)

lemma findDetectorsListLSST_exec:
  "findDetectors_exec env pts dl allow = Inr s \<Longrightarrow>
   findDetectorsListLSST env pts dl allow = Inr (str_lists (outputNameList s))"
  by (simp add: findDetectorsListLSST_def)

lemma overlap_single_run:
  "findDetectors_exec overlap_env [(3/2, 0)] [[sensorW1, sensorW2]] True =
     Inr \<lparr>outputNameList = [SList [''W1'', ''W2'']],
          chip_has_found = [- 1],
          checked_detectors = [''W1'', ''W2''],
          tests = [(sensorW1, [0]), (sensorW2, [0])]\<rparr>"
  by (simp add: findDetectors_exec_def overlap_env_def sensorW1_def sensorW2_def
      visit_detector_def record_hit_def upt_conv_Cons Let_def)

text \<open>
  C6. Given a shortlist for every point, the function returns (it does not raise) an array
  with one entry per point, and the entry at index \<open>i\<close> answers for the point at index
  \<open>i\<close>: every name in it is the name of a detector of the shortlist of that point that
  contains that point, and it is \<^verbatim>\<open>None\<close> when no detector of that shortlist contains the
  point. This holds for the empty batch, for one point and for more. (A call with fewer
  shortlists than points raises IndexError: \<open>missing_shortlist_raises\<close>.)
\<close>

theorem one_entry_per_point_in_order:
  assumes "length pts \<le> length dl"
  shows "\<exists>out. findDetectorsListLSST env pts dl allow = Inr out
           \<and> length out = length pts
           \<and> (\<forall>i<length pts.
                 (\<forall>nm. out ! i = EStr nm \<longrightarrow>
                    (\<exists>d\<in>set (dl ! i). det_name d = nm \<and> inside env pts d i))
                 \<and> (\<forall>ns. out ! i = EListStr ns \<longrightarrow>
                      (\<forall>nm\<in>set ns. \<exists>d\<in>set (dl ! i). det_name d = nm \<and> inside env pts d i))
                 \<and> ((\<forall>d\<in>set (dl ! i). \<not> inside env pts d i) \<longrightarrow> out ! i = ENone))"
proof -
  obtain s cbm where ex: "findDetectors_exec env pts dl allow = Inr s"
    and inv: "rinv env pts dl cbm s"
    using exec_summary [OF assms] by blast
  have len: "length (outputNameList s) = length pts"
    using inv by (simp add: rinv_def inv_len_def)
  have sound: "\<exists>d\<in>set (dl ! i). det_name d = nm \<and> inside env pts d i"
    if "i < length pts" "nm \<in> set (slot_names (outputNameList s ! i))" for i nm
    using inv that unfolding rinv_def inv_sound_def by blast
  have two: "2 \<le> length ns" if "i < length pts" "outputNameList s ! i = SList ns" for i ns
    using inv that unfolding rinv_def inv_names_def by blast
  let ?out = "str_lists (outputNameList s)"
  have "(\<forall>nm. ?out ! i = EStr nm \<longrightarrow>
            (\<exists>d\<in>set (dl ! i). det_name d = nm \<and> inside env pts d i))
        \<and> (\<forall>ns. ?out ! i = EListStr ns \<longrightarrow>
              (\<forall>nm\<in>set ns. \<exists>d\<in>set (dl ! i). det_name d = nm \<and> inside env pts d i))
        \<and> ((\<forall>d\<in>set (dl ! i). \<not> inside env pts d i) \<longrightarrow> ?out ! i = ENone)"
    if i: "i < length pts" for i
  proof (cases "outputNameList s ! i")
    case SNone
    then show ?thesis
      using i len by (simp add: str_lists_nth)
  next
    case (SName nm)
    then show ?thesis
      using i len sound [OF i, of nm] by (auto simp: str_lists_nth)
  next
    case (SList ns)
    have "ns \<noteq> []"
      using two [OF i SList] by auto
    then obtain nm where "nm \<in> set ns"
      by (cases ns) auto
    then have "\<exists>d\<in>set (dl ! i). inside env pts d i"
      using sound [OF i, of nm] SList by auto
    then show ?thesis
      using i len SList sound [OF i] by (auto simp: str_lists_nth)
  qed
  then show ?thesis
    using findDetectorsListLSST_exec [OF ex] len by (auto simp: str_lists_def)
qed

theorem one_entry_per_point_in_order_witness:
  "length [(0, 0), (5, 0), (10, 1/20) :: point] \<le> length [[chipA], [], [chipB]]
   \<and> findDetectorsListLSST two_chip_env [(0, 0), (5, 0), (10, 1/20)] [[chipA], [], [chipB]] False
       = Inr [EStr ''A'', ENone, EStr ''B'']
   \<and> findDetectorsListLSST two_chip_env [] [] False = Inr []
   \<and> (\<exists>out. findDetectorsListLSST two_chip_env [(0, 0), (5, 0), (10, 1/20)]
               [[chipA], [], [chipB]] False = Inr out
          \<and> length out = 3)"
proof -
  have l: "length [(0, 0), (5, 0), (10, 1/20) :: point] \<le> length [[chipA], [], [chipB]]"
    by simp
  have e: "findDetectorsListLSST two_chip_env [(0, 0), (5, 0), (10, 1/20)]
              [[chipA], [], [chipB]] False
           = Inr [EStr ''A'', ENone, EStr ''B'']"
    by (simp add: findDetectorsListLSST_def findDetectors_exec_def two_chip_env_def chipA_def
        chipB_def visit_detector_def record_hit_def str_lists_def upt_conv_Cons Let_def)
  have n: "findDetectorsListLSST two_chip_env [] [] False = Inr []"
    by (simp add: findDetectorsListLSST_def findDetectors_exec_def str_lists_def)
  show ?thesis
    using one_entry_per_point_in_order [OF l, of two_chip_env False] l e n by auto
qed

text \<open>
  C10. Given a shortlist for every point, no entry that the function makes from a list of
  names holds a name twice (and such a list has at least two names).
\<close>

theorem composite_names_distinct:
  assumes "length pts \<le> length dl" and "i < length pts"
  shows "\<exists>out. findDetectorsListLSST env pts dl allow = Inr out
           \<and> (\<forall>ns. out ! i = EListStr ns \<longrightarrow> distinct ns \<and> 2 \<le> length ns)"
proof -
  obtain s cbm where ex: "findDetectors_exec env pts dl allow = Inr s"
    and inv: "rinv env pts dl cbm s"
    using exec_summary [OF assms(1)] by blast
  have len: "i < length (outputNameList s)"
    using inv assms(2) by (simp add: rinv_def inv_len_def)
  have "distinct (slot_names (outputNameList s ! i))"
    and "\<forall>ns. outputNameList s ! i = SList ns \<longrightarrow> 2 \<le> length ns"
    using inv assms(2) unfolding rinv_def inv_names_def by blast+
  then have "\<forall>ns. str_lists (outputNameList s) ! i = EListStr ns \<longrightarrow> distinct ns \<and> 2 \<le> length ns"
    by (auto simp: str_lists_nth [OF len] split: slot.splits)
  then show ?thesis
    using findDetectorsListLSST_exec [OF ex] by simp
qed

theorem composite_names_distinct_witness:
  "length [(3/2, 0) :: point] \<le> length [[sensorW1, sensorW2]]
   \<and> (0::nat) < length [(3/2, 0) :: point]
   \<and> findDetectorsListLSST overlap_env [(3/2, 0)] [[sensorW1, sensorW2]] True
       = Inr [EListStr [''W1'', ''W2'']]
   \<and> distinct [''W1'', ''W2'']"
proof -
  have l: "length [(3/2, 0) :: point] \<le> length [[sensorW1, sensorW2]]"
    and i: "(0::nat) < length [(3/2, 0) :: point]"
    by simp_all
  have e: "findDetectorsListLSST overlap_env [(3/2, 0)] [[sensorW1, sensorW2]] True
           = Inr [EListStr [''W1'', ''W2'']]"
    by (simp add: findDetectorsListLSST_exec [OF overlap_single_run] str_lists_def)
  from composite_names_distinct [OF l i, of overlap_env True]
  have "distinct [''W1'', ''W2'']"
    by (simp add: e)
  with l i e show ?thesis by simp
qed

lemma not_eligible:
  "\<forall>d\<in>set (dl ! i). det_type d \<noteq> WAVEFRONT \<Longrightarrow> \<not> eligible dl allow i"
  by (simp add: eligible_def list_ex_iff)

lemma first_hit_Some:
  "first_hit env pts bs i = Some t \<Longrightarrow> t \<in> set bs \<and> i \<in> set (snd t) \<and> inside env pts (fst t) i"
  by (auto simp: first_hit_def find_Some_iff dest: nth_mem)

lemma first_hit_None:
  "first_hit env pts bs i = None \<Longrightarrow> (d, ixs) \<in> set bs \<Longrightarrow> i \<in> set ixs \<Longrightarrow> \<not> inside env pts d i"
  by (auto simp: first_hit_def find_None_iff)

text \<open>
  C5. Let every point have a shortlist and let the shortlist of point \<open>i\<close> hold no
  wavefront sensor. Then, whatever \<^verbatim>\<open>allow_multiple_chips\<close> is, the entry of point \<open>i\<close> is
  never made from a list: it is the name of the detector of the first logged box test that
  included point \<open>i\<close> and found it inside (a detector of its shortlist), or \<^verbatim>\<open>None\<close> when
  there was no such test. When the names of the shortlisted detectors tell them apart and
  some detector of the shortlist contains the point (so also when two do), there is such a
  test. The model has no output but the returned array or an exception: nothing is warned.
\<close>

theorem ordinary_point_single_first_tested:
  assumes dl: "length pts \<le> length dl" and i: "i < length pts"
    and ord: "\<forall>d\<in>set (dl ! i). det_type d \<noteq> WAVEFRONT"
  shows "\<exists>s out. findDetectors_exec env pts dl allow = Inr s
           \<and> findDetectorsListLSST env pts dl allow = Inr out
           \<and> (\<forall>ns. out ! i \<noteq> EListStr ns)
           \<and> out ! i = (case first_hit env pts (tests s) i of
                          None \<Rightarrow> ENone
                        | Some t \<Rightarrow> EStr (det_name (fst t)))
           \<and> (\<forall>t. first_hit env pts (tests s) i = Some t \<longrightarrow>
                  fst t \<in> set (dl ! i) \<and> inside env pts (fst t) i)
           \<and> (inj_on det_name (\<Union> (set ` set dl)) \<and> (\<exists>d\<in>set (dl ! i). inside env pts d i)
                \<longrightarrow> first_hit env pts (tests s) i \<noteq> None)"
proof -
  obtain s cbm where ex: "findDetectors_exec env pts dl allow = Inr s"
    and el: "\<forall>j<length pts. cbm ! j = eligible dl allow j"
    and inv: "rinv env pts dl cbm s"
    and fin: "all_found s \<or>
                (\<forall>i<length pts. outputNameList s ! i \<noteq> SNone
                    \<or> det_name ` set (dl ! i) \<subseteq> set (checked_detectors s))"
    using exec_summary [OF dl] by blast
  have single: "\<not> cbm ! i"
    using el i not_eligible [OF ord] by simp
  have len: "length (outputNameList s) = length pts" "length (chip_has_found s) = length pts"
    using inv by (simp_all add: rinv_def inv_len_def)
  have first: "outputNameList s ! i =
          (case first_hit env pts (tests s) i of
             None \<Rightarrow> SNone
           | Some t \<Rightarrow> SName (det_name (fst t)))"
    using inv i single by (simp add: rinv_def inv_first_def)
  have found: "chip_has_found s ! i < 0 \<longleftrightarrow> outputNameList s ! i = SNone"
    using inv i single by (simp add: rinv_def inv_found_def)
  have log: "\<forall>t\<in>set (tests s). \<forall>j\<in>set (snd t). fst t \<in> set (dl ! j)"
    using inv by (simp add: rinv_def inv_tests_def)
  let ?out = "str_lists (outputNameList s)"
  have o: "?out ! i = (case first_hit env pts (tests s) i of
                          None \<Rightarrow> ENone
                        | Some t \<Rightarrow> EStr (det_name (fst t)))"
    using i len first by (simp add: str_lists_nth split: option.splits)
  then have nolist: "\<forall>ns. ?out ! i \<noteq> EListStr ns"
    by (simp split: option.splits)
  have hit: "fst t \<in> set (dl ! i) \<and> inside env pts (fst t) i"
    if "first_hit env pts (tests s) i = Some t" for t
    using first_hit_Some [OF that] log by blast
  have complete: "first_hit env pts (tests s) i \<noteq> None"
    if inj: "inj_on det_name (\<Union> (set ` set dl))"
      and d: "d \<in> set (dl ! i)" "inside env pts d i" for d
  proof
    assume none: "first_hit env pts (tests s) i = None"
    then have sn: "outputNameList s ! i = SNone"
      using first by simp
    then have un: "chip_has_found s ! i < 0"
      using found by simp
    then have "\<not> all_found s"
      using i len by (auto simp: all_found_def)
    then have "det_name ` set (dl ! i) \<subseteq> set (checked_detectors s)"
      using fin i sn by blast
    then have "det_name d \<in> set (checked_detectors s)"
      using d(1) by blast
    moreover have "inv_complete dl (length pts) s"
      using inv inj by (simp add: rinv_def)
    ultimately obtain ixs where "(d, ixs) \<in> set (tests s)" "i \<in> set ixs"
      using i un d(1) unfolding inv_complete_def by blast
    then show False
      using first_hit_None [OF none] d(2) by blast
  qed
  show ?thesis
    using ex findDetectorsListLSST_exec [OF ex] nolist o hit complete by blast
qed

theorem ordinary_point_single_first_tested_witness:
  "length [(3/2, 0) :: point] \<le> length [[chipS1, chipS2]]
   \<and> (0::nat) < length [(3/2, 0) :: point]
   \<and> det_type chipS1 \<noteq> WAVEFRONT \<and> det_type chipS2 \<noteq> WAVEFRONT
   \<and> inj_on det_name (\<Union> (set ` set [[chipS1, chipS2]]))
   \<and> inside overlap_env [(3/2, 0)] chipS1 0 \<and> inside overlap_env [(3/2, 0)] chipS2 0
   \<and> findDetectors_exec overlap_env [(3/2, 0)] [[chipS1, chipS2]] True
       = Inr \<lparr>outputNameList = [SName ''S1''], chip_has_found = [1],
              checked_detectors = [''S1'', ''S2''], tests = [(chipS1, [0])]\<rparr>
   \<and> findDetectorsListLSST overlap_env [(3/2, 0)] [[chipS1, chipS2]] True = Inr [EStr ''S1'']
   \<and> first_hit overlap_env [(3/2, 0)] [(chipS1, [0])] 0 \<noteq> None"
proof -
  let ?s = "\<lparr>outputNameList = [SName ''S1''], chip_has_found = [1],
              checked_detectors = [''S1'', ''S2''], tests = [(chipS1, [0])]\<rparr>"
  have l: "length [(3/2, 0) :: point] \<le> length [[chipS1, chipS2]]"
    and i: "(0::nat) < length [(3/2, 0) :: point]"
    by simp_all
  have ord: "\<forall>d\<in>set ([[chipS1, chipS2]] ! 0). det_type d \<noteq> WAVEFRONT"
    by (simp add: chipS1_def chipS2_def)
  have inj: "inj_on det_name (\<Union> (set ` set [[chipS1, chipS2]]))"
    by (simp add: chipS1_def chipS2_def)
  have ins: "inside overlap_env [(3/2, 0)] chipS1 0" "inside overlap_env [(3/2, 0)] chipS2 0"
    by (simp_all add: inside_def overlap_env_def chipS1_def chipS2_def)
  have e: "findDetectors_exec overlap_env [(3/2, 0)] [[chipS1, chipS2]] True = Inr ?s"
    by (simp add: findDetectors_exec_def overlap_env_def chipS1_def chipS2_def
        visit_detector_def record_hit_def upt_conv_Cons Let_def)
  obtain s out
    where s: "findDetectors_exec overlap_env [(3/2, 0)] [[chipS1, chipS2]] True = Inr s"
      and out: "findDetectorsListLSST overlap_env [(3/2, 0)] [[chipS1, chipS2]] True = Inr out"
      and c: "inj_on det_name (\<Union> (set ` set [[chipS1, chipS2]]))
              \<and> (\<exists>d\<in>set ([[chipS1, chipS2]] ! 0). inside overlap_env [(3/2, 0)] d 0)
              \<longrightarrow> first_hit overlap_env [(3/2, 0)] (tests s) 0 \<noteq> None"
    using ordinary_point_single_first_tested [OF l i ord, of overlap_env True] by blast
  have "s = ?s"
    using s e by simp
  then have f: "first_hit overlap_env [(3/2, 0)] [(chipS1, [0])] 0 \<noteq> None"
    using c inj ins(1) by simp
  have "findDetectorsListLSST overlap_env [(3/2, 0)] [[chipS1, chipS2]] True = Inr [EStr ''S1'']"
    by (simp add: findDetectorsListLSST_exec [OF e] str_lists_def)
  with l i ord inj ins e f show ?thesis
    by simp
qed

subsection \<open>The early exit\<close>

lemma all_found_visit:
  "all_found s \<Longrightarrow>
   visit_detector env dl cbm native d s =
     Returned (s\<lparr>checked_detectors := checked_detectors s @ [det_name d]\<rparr>)"
  by (simp add: visit_detector_def Let_def all_found_def filter_empty_conv)

lemma all_found_detector_loop:
  "all_found s \<Longrightarrow>
   detector_loop env dl cbm native ds s = Running s
   \<or> (\<exists>c. detector_loop env dl cbm native ds s = Returned (s\<lparr>checked_detectors := c\<rparr>))"
  by (induction ds) (auto simp: all_found_visit)

lemma all_found_point_loop:
  "all_found s \<Longrightarrow> \<forall>ipt\<in>set ipts. ipt < length dl \<Longrightarrow>
   point_loop env dl cbm native ipts s = Running s
   \<or> (\<exists>c. point_loop env dl cbm native ipts s = Returned (s\<lparr>checked_detectors := c\<rparr>))"
proof (induction ipts)
  case Nil
  then show ?case by simp
next
  case (Cons ipt ipts)
  then show ?case
    using all_found_detector_loop [of s env dl cbm native "dl ! ipt"]
    by auto
qed

text \<open>
  C2, as it holds. Given a shortlist for every point: the detectors of the logged box tests
  have different names (no detector is tested twice), and in the state the search ends in
  a point that may not be on several chips is marked found exactly when it has a result,
  while a point that may be on several chips is never marked found. From any state in
  which every point is marked found, the visit of a detector is the \<^verbatim>\<open>return\<close> of line 135
  with nothing tested, and the loops from there on end with the same log of tests, the
  same results and the same marks.
\<close>

theorem no_test_after_all_found:
  assumes "length pts \<le> length dl"
  shows "(\<exists>s. findDetectors_exec env pts dl allow = Inr s
            \<and> distinct (map (\<lambda>t. det_name (fst t)) (tests s))
            \<and> (\<forall>j<length pts.
                  if eligible dl allow j then chip_has_found s ! j < 0
                  else (chip_has_found s ! j < 0 \<longleftrightarrow> outputNameList s ! j = SNone)))
         \<and> (\<forall>s cbm native d. all_found s \<longrightarrow>
               visit_detector env dl cbm native d s =
                 Returned (s\<lparr>checked_detectors := checked_detectors s @ [det_name d]\<rparr>))
         \<and> (\<forall>s cbm native ipts. all_found s \<and> (\<forall>ipt\<in>set ipts. ipt < length dl) \<longrightarrow>
               (\<exists>s'. (point_loop env dl cbm native ipts s = Running s'
                       \<or> point_loop env dl cbm native ipts s = Returned s')
                    \<and> tests s' = tests s
                    \<and> outputNameList s' = outputNameList s
                    \<and> chip_has_found s' = chip_has_found s))"
proof -
  obtain s cbm where ex: "findDetectors_exec env pts dl allow = Inr s"
    and el: "\<forall>j<length pts. cbm ! j = eligible dl allow j"
    and inv: "rinv env pts dl cbm s"
    using exec_summary [OF assms] by blast
  have "distinct (map (\<lambda>t. det_name (fst t)) (tests s))"
    using inv by (simp add: rinv_def inv_tests_def)
  moreover have "\<forall>j<length pts.
                  if eligible dl allow j then chip_has_found s ! j < 0
                  else (chip_has_found s ! j < 0 \<longleftrightarrow> outputNameList s ! j = SNone)"
    using inv el by (simp add: rinv_def inv_found_def)
  ultimately have 1: "\<exists>s. findDetectors_exec env pts dl allow = Inr s
            \<and> distinct (map (\<lambda>t. det_name (fst t)) (tests s))
            \<and> (\<forall>j<length pts.
                  if eligible dl allow j then chip_has_found s ! j < 0
                  else (chip_has_found s ! j < 0 \<longleftrightarrow> outputNameList s ! j = SNone))"
    using ex by blast
  have 3: "\<exists>s'. (point_loop env dl cbm native ipts s = Running s'
                       \<or> point_loop env dl cbm native ipts s = Returned s')
                    \<and> tests s' = tests s
                    \<and> outputNameList s' = outputNameList s
                    \<and> chip_has_found s' = chip_has_found s"
    if "all_found s" "\<forall>ipt\<in>set ipts. ipt < length dl" for s cbm native ipts
    using all_found_point_loop [OF that, of env cbm native] by auto
  show ?thesis
    using 1 3 all_found_visit by blast
qed

theorem no_test_after_all_found_witness:
  "length [(1/2, 0), (3/2, 0) :: point] \<le> length [[chipS1], [chipS1, chipS2]]
   \<and> findDetectors_exec overlap_env [(1/2, 0), (3/2, 0)] [[chipS1], [chipS1, chipS2]] False
       = Inr \<lparr>outputNameList = [SName ''S1'', SName ''S1''], chip_has_found = [1, 1],
              checked_detectors = [''S1''], tests = [(chipS1, [0, 1])]\<rparr>
   \<and> all_found \<lparr>outputNameList = [SName ''S1'', SName ''S1''], chip_has_found = [1, 1],
              checked_detectors = [''S1''], tests = [(chipS1, [0, 1])]\<rparr>
   \<and> visit_detector overlap_env [[chipS1], [chipS1, chipS2]] [False, False]
        [(1/2, 0), (3/2, 0)] chipS2
        \<lparr>outputNameList = [SName ''S1'', SName ''S1''], chip_has_found = [1, 1],
              checked_detectors = [''S1''], tests = [(chipS1, [0, 1])]\<rparr>
       = Returned \<lparr>outputNameList = [SName ''S1'', SName ''S1''], chip_has_found = [1, 1],
              checked_detectors = [''S1'', ''S2''], tests = [(chipS1, [0, 1])]\<rparr>
   \<and> (\<exists>s'. (point_loop overlap_env [[chipS1], [chipS1, chipS2]] [False, False]
                [(1/2, 0), (3/2, 0)] [1]
                \<lparr>outputNameList = [SName ''S1'', SName ''S1''], chip_has_found = [1, 1],
                 checked_detectors = [''S1''], tests = [(chipS1, [0, 1])]\<rparr> = Running s'
              \<or> point_loop overlap_env [[chipS1], [chipS1, chipS2]] [False, False]
                [(1/2, 0), (3/2, 0)] [1]
                \<lparr>outputNameList = [SName ''S1'', SName ''S1''], chip_has_found = [1, 1],
                 checked_detectors = [''S1''], tests = [(chipS1, [0, 1])]\<rparr> = Returned s')
            \<and> tests s' = [(chipS1, [0, 1])])"
proof -
  let ?s = "\<lparr>outputNameList = [SName ''S1'', SName ''S1''], chip_has_found = [1, 1],
              checked_detectors = [''S1''], tests = [(chipS1, [0, 1])]\<rparr>"
  let ?dl = "[[chipS1], [chipS1, chipS2]]"
  have l: "length [(1/2, 0), (3/2, 0) :: point] \<le> length ?dl"
    by simp
  have e: "findDetectors_exec overlap_env [(1/2, 0), (3/2, 0)] ?dl False = Inr ?s"
    by (simp add: findDetectors_exec_def overlap_env_def chipS1_def chipS2_def
        visit_detector_def record_hit_def upt_conv_Cons Let_def)
  have a: "all_found ?s"
    by (simp add: all_found_def less_Suc_eq)
  have r: "\<forall>ipt\<in>set [1::nat]. ipt < length ?dl"
    by simp
  note t = no_test_after_all_found [OF l, of overlap_env False]
  from t [THEN conjunct2, THEN conjunct1, rule_format, OF a,
      of "[False, False]" "[(1/2, 0), (3/2, 0)]" chipS2]
  have v: "visit_detector overlap_env ?dl [False, False] [(1/2, 0), (3/2, 0)] chipS2 ?s
       = Returned \<lparr>outputNameList = [SName ''S1'', SName ''S1''], chip_has_found = [1, 1],
              checked_detectors = [''S1'', ''S2''], tests = [(chipS1, [0, 1])]\<rparr>"
    by (simp add: chipS2_def)
  from t [THEN conjunct2, THEN conjunct2, rule_format, OF conjI [OF a r],
      of "[False, False]" "[(1/2, 0), (3/2, 0)]"]
  have p: "\<exists>s'. (point_loop overlap_env ?dl [False, False] [(1/2, 0), (3/2, 0)] [1] ?s
                   = Running s'
              \<or> point_loop overlap_env ?dl [False, False] [(1/2, 0), (3/2, 0)] [1] ?s
                   = Returned s')
            \<and> tests s' = [(chipS1, [0, 1])]"
    by auto
  from l e a v p show ?thesis
    by blast
qed

text \<open>
  C2, as it is stated, fails where a point may be on several chips. One point inside the
  wavefront sensors W1 and W2, both in its shortlist, \<^verbatim>\<open>allow_multiple_chips\<close> set: after
  the visit of W1 the only point has the result W1, yet the visit of W2 does not return
  but tests the point again; the whole search logs both tests.
\<close>

theorem early_exit_counterexample:
  "visit_detector overlap_env [[sensorW1, sensorW2]] [True] [(3/2, 0)] sensorW1
       (initial_state 1)
     = Running \<lparr>outputNameList = [SName ''W1''], chip_has_found = [- 1],
                checked_detectors = [''W1''], tests = [(sensorW1, [0])]\<rparr>
   \<and> visit_detector overlap_env [[sensorW1, sensorW2]] [True] [(3/2, 0)] sensorW2
       \<lparr>outputNameList = [SName ''W1''], chip_has_found = [- 1],
        checked_detectors = [''W1''], tests = [(sensorW1, [0])]\<rparr>
     = Running \<lparr>outputNameList = [SList [''W1'', ''W2'']], chip_has_found = [- 1],
                checked_detectors = [''W1'', ''W2''],
                tests = [(sensorW1, [0]), (sensorW2, [0])]\<rparr>
   \<and> findDetectors_exec overlap_env [(3/2, 0)] [[sensorW1, sensorW2]] True
     = Inr \<lparr>outputNameList = [SList [''W1'', ''W2'']], chip_has_found = [- 1],
            checked_detectors = [''W1'', ''W2''],
            tests = [(sensorW1, [0]), (sensorW2, [0])]\<rparr>"
  by (simp add: overlap_single_run)
     (simp add: initial_state_def overlap_env_def sensorW1_def sensorW2_def
        visit_detector_def record_hit_def upt_conv_Cons Let_def)

subsection \<open>A batch that loses a wavefront sensor\<close>

text \<open>
  C1 at a batch of two points. The second point is inside the boxes of the wavefront
  sensors W1 and W2, both in its shortlist; the first has W1 alone in its shortlist. With
  \<^verbatim>\<open>allow_multiple_chips\<close> set the visit of W1 for the first point gives the second point
  the result W1, and line 126 then skips the shortlist of the second point: W2 is never
  tested and the second entry is the single name W1. Alone in its batch the same point gets
  both names.
\<close>

theorem wavefront_pair_lost_in_batch:
  "inside overlap_env [(1/2, 0), (3/2, 0)] sensorW1 1
   \<and> inside overlap_env [(1/2, 0), (3/2, 0)] sensorW2 1
   \<and> findDetectorsListLSST overlap_env [(1/2, 0), (3/2, 0)]
        [[sensorW1], [sensorW1, sensorW2]] True
     = Inr [EStr ''W1'', EStr ''W1'']
   \<and> findDetectorsListLSST overlap_env [(3/2, 0)] [[sensorW1, sensorW2]] True
     = Inr [EListStr [''W1'', ''W2'']]"
  by (simp add: findDetectorsListLSST_def findDetectors_exec_def inside_def overlap_env_def
      sensorW1_def sensorW2_def visit_detector_def record_hit_def str_lists_def upt_conv_Cons
      Let_def)

end
